theory Spec2Isabelle
  imports Main "HOL-Library.AList"
begin

section \<open>JSON documents\<close>

text \<open>
  The second half of \<^verbatim>\<open>buildOpenAPISchema\<close> works on what \<^verbatim>\<open>json.Unmarshal\<close> yields for
  \<^verbatim>\<open>map[string]any\<close>: a tree of objects, arrays and scalars. A Go map is an
  association list here; \<^term>\<open>map_of\<close> reads it, \<^term>\<open>AList.update\<close> is the
  assignment \<^verbatim>\<open>m[k] = v\<close> and \<^term>\<open>AList.delete\<close> is \<^verbatim>\<open>delete(m, k)\<close>. Numbers are
  opaque payload for every function of the file.
\<close>

datatype json =
    JNull
  | JBool bool
  | JNumber int
  | JString string
  | JArray "json list"
  | JObject "(string \<times> json) list"

type_synonym jmap = "(string \<times> json) list"

definition has_key :: "jmap \<Rightarrow> string \<Rightarrow> bool" where
  "has_key m k = (map_of m k \<noteq> None)"

abbreviation jsize :: "jmap \<Rightarrow> nat" where
  "jsize \<equiv> size_list (size_prod (\<lambda>_. 0) size)"

subsection \<open>The Version Sanitizer: \<^verbatim>\<open>sanitizeForOpenAPIV2\<close>\<close>

text \<open>
  The two leading stanzas of \<^verbatim>\<open>sanitizeForOpenAPIV2\<close>: when the map has a \<^verbatim>\<open>$ref\<close> key,
  \<^verbatim>\<open>type\<close> and \<^verbatim>\<open>format\<close> are deleted; then \<^verbatim>\<open>nullable\<close>, \<^verbatim>\<open>anyOf\<close>, \<^verbatim>\<open>oneOf\<close> and
  \<^verbatim>\<open>not\<close> are deleted.
\<close>

definition stripUnsupported :: "jmap \<Rightarrow> jmap" where
  "stripUnsupported schema =
    (let s1 = (if has_key schema ''$ref''
               then AList.delete ''format'' (AList.delete ''type'' schema) else schema)
     in AList.delete ''not'' (AList.delete ''oneOf'' (AList.delete ''anyOf''
          (AList.delete ''nullable'' s1))))"

text \<open>
  The body of \<^verbatim>\<open>sanitizeForOpenAPIV2\<close>, with \<open>self\<close> for its recursive calls. The Go code
  mutates nested maps in place; after \<^verbatim>\<open>json.Unmarshal\<close> no two positions of the tree share
  a map, so each in-place call is the assignment of the sanitized map at its key. The
  type assertions \<^verbatim>\<open>.(map[string]any)\<close> and \<^verbatim>\<open>.([]any)\<close> are the \<open>case\<close> patterns: a value
  of another shape is left alone.
\<close>

definition sanitize_body :: "(jmap \<Rightarrow> jmap) \<Rightarrow> jmap \<Rightarrow> jmap" where
  "sanitize_body self schema =
    (let s2 = stripUnsupported schema;
         s3 = (case map_of s2 ''properties'' of
                 Some (JObject props) \<Rightarrow>
                   AList.update ''properties''
                     (JObject (map (\<lambda>(k, v). (k, case v of JObject propSchema \<Rightarrow>
                          JObject (self propSchema) | _ \<Rightarrow> v)) props)) s2
               | _ \<Rightarrow> s2);
         s4 = (case map_of s3 ''items'' of
                 Some (JObject items) \<Rightarrow> AList.update ''items'' (JObject (self items)) s3
               | _ \<Rightarrow> s3);
         s5 = (case map_of s4 ''additionalProperties'' of
                 Some (JObject addProps) \<Rightarrow>
                   AList.update ''additionalProperties'' (JObject (self addProps)) s4
               | _ \<Rightarrow> s4)
     in (case map_of s5 ''allOf'' of
           Some (JArray allOf) \<Rightarrow>
             AList.update ''allOf''
               (JArray (map (\<lambda>v. case v of JObject subSchema \<Rightarrow> JObject (self subSchema)
                                     | _ \<Rightarrow> v) allOf)) s5
         | _ \<Rightarrow> s5))"

text \<open>
  The three shapes of in-place recursion, as functions on the value stored at a key.
\<close>

definition onObject :: "(jmap \<Rightarrow> jmap) \<Rightarrow> json \<Rightarrow> json" where
  "onObject f v = (case v of JObject m \<Rightarrow> JObject (f m) | _ \<Rightarrow> v)"

definition onValues :: "(jmap \<Rightarrow> jmap) \<Rightarrow> json \<Rightarrow> json" where
  "onValues f v = (case v of JObject props \<Rightarrow> JObject (map (\<lambda>(k, w). (k, onObject f w)) props)
                   | _ \<Rightarrow> v)"

definition onElems :: "(jmap \<Rightarrow> jmap) \<Rightarrow> json \<Rightarrow> json" where
  "onElems f v = (case v of JArray xs \<Rightarrow> JArray (map (onObject f) xs) | _ \<Rightarrow> v)"

lemma update_map_entry:
  "map_of s k = Some v \<Longrightarrow> AList.update k w s = AList.map_entry k (\<lambda>_. w) s"
  by (induction s) (auto split: if_splits)

lemma map_entry_cong_val:
  "(\<And>v. map_of s k = Some v \<Longrightarrow> F v = G v) \<Longrightarrow> AList.map_entry k F s = AList.map_entry k G s"
  by (induction s) auto

lemma map_entry_absent: "map_of s k = None \<Longrightarrow> AList.map_entry k F s = s"
  by (induction s) (auto split: if_splits)

lemma map_entry_ident:
  "(\<And>v. map_of s k = Some v \<Longrightarrow> F v = v) \<Longrightarrow> AList.map_entry k F s = s"
  by (induction s) auto

lemma map_entry_keys: "map fst (AList.map_entry k F s) = map fst s"
  by (induction s) auto

lemma map_entry_twice:
  "AList.map_entry k F (AList.map_entry k G s) = AList.map_entry k (F \<circ> G) s"
  by (induction s) auto

lemma map_of_map_entry_other:
  "k' \<noteq> k \<Longrightarrow> map_of (AList.map_entry k F s) k' = map_of s k'"
  by (simp add: map_of_map_entry)

lemma map_of_map_entry_same:
  "map_of (AList.map_entry k F s) k = map_option F (map_of s k)"
  by (simp add: map_of_map_entry split: option.splits)

lemma update_found_entry:
  "map_of s k = Some v \<Longrightarrow> AList.update k (F v) s = AList.map_entry k F s"
  by (induction s) (auto split: if_splits)

lemma object_in_place:
  "(case map_of s k of Some (JObject m) \<Rightarrow> AList.update k (JObject (f m)) s | _ \<Rightarrow> s)
     = AList.map_entry k (onObject f) s"
proof (cases "map_of s k")
  case None
  then show ?thesis by (simp add: map_entry_absent)
next
  case (Some v)
  have "AList.map_entry k (onObject f) s = AList.update k (onObject f v) s"
    using Some by (simp add: update_found_entry)
  then show ?thesis
    using Some by (cases v) (simp_all add: onObject_def update_triv)
qed

lemma values_in_place:
  "(case map_of s k of
      Some (JObject props) \<Rightarrow>
        AList.update k (JObject (map (\<lambda>(k, v). (k, case v of JObject propSchema \<Rightarrow>
             JObject (f propSchema) | _ \<Rightarrow> v)) props)) s
    | _ \<Rightarrow> s)
     = AList.map_entry k (onValues f) s"
proof (cases "map_of s k")
  case None
  then show ?thesis by (simp add: map_entry_absent)
next
  case (Some v)
  have "AList.map_entry k (onValues f) s = AList.update k (onValues f v) s"
    using Some by (simp add: update_found_entry)
  then show ?thesis
    using Some by (cases v) (simp_all add: onValues_def onObject_def [abs_def] update_triv)
qed

lemma elems_in_place:
  "(case map_of s k of
      Some (JArray allOf) \<Rightarrow>
        AList.update k (JArray (map (\<lambda>v. case v of JObject subSchema \<Rightarrow>
             JObject (f subSchema) | _ \<Rightarrow> v) allOf)) s
    | _ \<Rightarrow> s)
     = AList.map_entry k (onElems f) s"
proof (cases "map_of s k")
  case None
  then show ?thesis by (simp add: map_entry_absent)
next
  case (Some v)
  have "AList.map_entry k (onElems f) s = AList.update k (onElems f v) s"
    using Some by (simp add: update_found_entry)
  then show ?thesis
    using Some by (cases v) (simp_all add: onElems_def onObject_def [abs_def] update_triv)
qed

lemma sanitize_body_entries:
  "sanitize_body f schema =
     AList.map_entry ''allOf'' (onElems f)
       (AList.map_entry ''additionalProperties'' (onObject f)
         (AList.map_entry ''items'' (onObject f)
           (AList.map_entry ''properties'' (onValues f) (stripUnsupported schema))))"
  unfolding sanitize_body_def Let_def
  by (simp only: values_in_place) (simp only: object_in_place elems_in_place)

lemma size_map_of: "map_of m k = Some v \<Longrightarrow> size v < Suc (jsize m)"
  by (induction m) (auto split: if_splits)

lemma size_delete: "jsize (AList.delete k m) \<le> jsize m"
  by (induction m) auto

lemma size_delete_le: "jsize m \<le> n \<Longrightarrow> jsize (AList.delete k m) \<le> n"
  using size_delete [of k m] by simp

lemma size_stripUnsupported: "jsize (stripUnsupported m) \<le> jsize m"
  unfolding stripUnsupported_def Let_def
  by (auto intro!: size_delete_le)

lemma size_elem: "(k, v) \<in> set m \<Longrightarrow> size v < Suc (jsize m)"
  by (induction m) auto

lemma size_elem2: "v \<in> set xs \<Longrightarrow> size v < Suc (size_list size xs)"
  by (induction xs) auto

lemma onObject_cong:
  "(\<And>m. v = JObject m \<Longrightarrow> f m = g m) \<Longrightarrow> onObject f v = onObject g v"
  by (cases v) (simp_all add: onObject_def)

lemma onValues_cong:
  "(\<And>props k m. v = JObject props \<Longrightarrow> (k, JObject m) \<in> set props \<Longrightarrow> f m = g m)
    \<Longrightarrow> onValues f v = onValues g v"
  by (cases v) (auto simp: onValues_def intro!: onObject_cong)

lemma onElems_cong:
  "(\<And>xs m. v = JArray xs \<Longrightarrow> JObject m \<in> set xs \<Longrightarrow> f m = g m)
    \<Longrightarrow> onElems f v = onElems g v"
  by (cases v) (auto simp: onElems_def intro!: onObject_cong)

lemma sanitize_body_cong [fundef_cong]:
  assumes "schema = schema'"
    and agree: "\<And>m. jsize m < jsize schema' \<Longrightarrow> f m = g m"
  shows "sanitize_body f schema = sanitize_body g schema'"
proof -
  let ?s = "stripUnsupported schema'"
  have sub: "jsize m < jsize schema'" if "map_of ?s k = Some (JObject m)" for k m
    using size_map_of [OF that] size_stripUnsupported [of schema'] by simp
  have sub2: "jsize m < jsize schema'"
    if "map_of ?s k = Some (JObject props)" "(k', JObject m) \<in> set props" for k k' props m
    using sub [OF that(1)] size_elem [OF that(2)] by simp
  have sub3: "jsize m < jsize schema'"
    if "map_of ?s k = Some (JArray xs)" "JObject m \<in> set xs" for k xs m
    using size_map_of [OF that(1)] size_elem2 [OF that(2)] size_stripUnsupported [of schema']
    by simp
  have p: "AList.map_entry ''properties'' (onValues f) ?s
         = AList.map_entry ''properties'' (onValues g) ?s" (is "?p1 = ?p2")
    by (rule map_entry_cong_val, rule onValues_cong) (auto dest: sub2 intro: agree)
  have i: "AList.map_entry ''items'' (onObject f) ?p2
         = AList.map_entry ''items'' (onObject g) ?p2" (is "?i1 = ?i2")
    by (rule map_entry_cong_val, rule onObject_cong)
       (auto simp: map_of_map_entry dest: sub intro: agree)
  have a: "AList.map_entry ''additionalProperties'' (onObject f) ?i2
         = AList.map_entry ''additionalProperties'' (onObject g) ?i2" (is "?a1 = ?a2")
    by (rule map_entry_cong_val, rule onObject_cong)
       (auto simp: map_of_map_entry dest: sub intro: agree)
  have l: "AList.map_entry ''allOf'' (onElems f) ?a2
         = AList.map_entry ''allOf'' (onElems g) ?a2"
    by (rule map_entry_cong_val, rule onElems_cong)
       (auto simp: map_of_map_entry dest: sub3 intro: agree)
  show ?thesis
    unfolding sanitize_body_entries assms(1) p i a l ..
qed

text \<open>
  Every recursive call is on a map strictly inside the argument, which is what the
  congruence rule above records; the recursion terminates on the size of the tree.
\<close>

function sanitizeForOpenAPIV2 :: "jmap \<Rightarrow> jmap" where
  "sanitizeForOpenAPIV2 schema = sanitize_body sanitizeForOpenAPIV2 schema"
  by pat_completeness auto
termination
  by (relation "measure jsize") auto

declare sanitizeForOpenAPIV2.simps [simp del]

text \<open>
  The four recursive stanzas of the sanitizer, as one function of the stripped map.
\<close>

definition nested :: "(jmap \<Rightarrow> jmap) \<Rightarrow> jmap \<Rightarrow> jmap" where
  "nested f m =
     AList.map_entry ''allOf'' (onElems f)
       (AList.map_entry ''additionalProperties'' (onObject f)
         (AList.map_entry ''items'' (onObject f)
           (AList.map_entry ''properties'' (onValues f) m)))"

subsection \<open>Nested fragments of a JSON schema\<close>

text \<open>
  A nested fragment is addressed by the path that leads to it: through the value of a
  property, through \<^verbatim>\<open>items\<close>, through \<^verbatim>\<open>additionalProperties\<close>, or through the \<open>i\<close>-th entry
  of \<^verbatim>\<open>allOf\<close>. Only objects are fragments: \<^verbatim>\<open>items\<close> holding an array, say, leads nowhere.
\<close>

datatype step = InProperty string | InItems | InAdditionalProperties | InAllOf nat

fun fragmentAt :: "step list \<Rightarrow> jmap \<Rightarrow> jmap option" where
  "fragmentAt [] m = Some m"
| "fragmentAt (InProperty name # p) m =
     (case map_of m ''properties'' of
        Some (JObject props) \<Rightarrow>
          (case map_of props name of Some (JObject sub) \<Rightarrow> fragmentAt p sub | _ \<Rightarrow> None)
      | _ \<Rightarrow> None)"
| "fragmentAt (InItems # p) m =
     (case map_of m ''items'' of Some (JObject sub) \<Rightarrow> fragmentAt p sub | _ \<Rightarrow> None)"
| "fragmentAt (InAdditionalProperties # p) m =
     (case map_of m ''additionalProperties'' of
        Some (JObject sub) \<Rightarrow> fragmentAt p sub | _ \<Rightarrow> None)"
| "fragmentAt (InAllOf i # p) m =
     (case map_of m ''allOf'' of
        Some (JArray xs) \<Rightarrow>
          (if i < length xs then (case xs ! i of JObject sub \<Rightarrow> fragmentAt p sub | _ \<Rightarrow> None)
           else None)
      | _ \<Rightarrow> None)"

text \<open>
  Vendor extensions are the keys that start with \<^verbatim>\<open>x-\<close>, such as the \<^verbatim>\<open>x-kubernetes-*\<close> keys
  the comment on \<^verbatim>\<open>sanitizeForOpenAPIV2\<close> names.
\<close>

definition vendorExtension :: "string \<Rightarrow> bool" where
  "vendorExtension k = (take 2 k = ''x-'')"

section \<open>Schemas as the generator holds them\<close>

text \<open>
  \<^verbatim>\<open>resolveAllOfRefs\<close> and \<^verbatim>\<open>convertRefs\<close> work on \<^verbatim>\<open>apiextensionsv1.JSONSchemaProps\<close>. The
  fields the two functions read or write are kept, together with the fields the sanitizer
  later deletes and one vendor extension; pointers are options, and \<^verbatim>\<open>DeepCopy\<close> is the
  identity on values. \<^verbatim>\<open>Properties\<close> is a Go map: the list gives its entries in the order
  \<^verbatim>\<open>range\<close> yields them.
\<close>

datatype 'a JSONSchemaPropsOrArray =
  JSONSchemaPropsOrArray (Schema: "'a option") (JSONSchemas: "'a list")

datatype 'a JSONSchemaPropsOrBool =
  JSONSchemaPropsOrBool (Allows: bool) (BoolSchema: "'a option")

datatype JSONSchemaProps = JSONSchemaProps
  (Ref: "string option")
  (Type: string)
  (Format: string)
  (Nullable: bool)
  (Properties: "(string \<times> JSONSchemaProps) list")
  (Items: "JSONSchemaProps JSONSchemaPropsOrArray option")
  (AdditionalProperties: "JSONSchemaProps JSONSchemaPropsOrBool option")
  (AllOf: "JSONSchemaProps list")
  (OneOf: "JSONSchemaProps list")
  (AnyOf: "JSONSchemaProps list")
  (Not': "JSONSchemaProps option")
  (XMapType: "string option")

text \<open>
  A \<^verbatim>\<open>*loader.Package\<close> stands for the package it points to, of which only \<^verbatim>\<open>PkgPath\<close> is
  read: two pointers are equal when their packages are. A \<^verbatim>\<open>crd.TypeIdent\<close> is a package
  pointer, possibly nil, and a name.
\<close>

datatype Package = Pkg (PkgPath: string)

datatype TypeIdent = TypeIdent (Package: "Package option") (Name: string)

record GroupVersion =
  Group :: string
  Version :: string

text \<open>
  The errors \<^verbatim>\<open>buildOpenAPISchema\<close> and \<^verbatim>\<open>resolveAllOfRefs\<close> return, one constructor for each
  \<^verbatim>\<open>fmt.Errorf\<close>, with its arguments.
\<close>

datatype error =
    ParseRefFailed string
  | PackageNotFound string string
  | SchemaNotFound string string
  | ResolveAllOfRefsFailed string error
  | MarshalFailed string

text \<open>
  What the code calls and this repository's sources do not hold: \<^verbatim>\<open>crd.RefParts\<close> (the
  type name and the package path of a reference, or an error), kube-openapi's
  \<^verbatim>\<open>util.ToRESTFriendlyName\<close>, \<^verbatim>\<open>crd.FlattenEmbedded\<close>, and the round trip through
  \<^verbatim>\<open>json.Marshal\<close> and \<^verbatim>\<open>json.Unmarshal\<close> that turns a schema into a \<^verbatim>\<open>map[string]any\<close>.
  They are parameters of the model: every theorem below holds for all of them.
\<close>

record Library =
  RefParts :: "string \<Rightarrow> (string \<times> string) option"
  ToRESTFriendlyName :: "string \<Rightarrow> string"
  FlattenEmbedded :: "JSONSchemaProps \<Rightarrow> Package option \<Rightarrow> JSONSchemaProps"
  Marshal :: "JSONSchemaProps \<Rightarrow> jmap option"

subsection \<open>Outcomes\<close>

text \<open>
  A call either runs out of fuel (\<open>None\<close>: the recursion of \<^verbatim>\<open>resolveAllOfRefs\<close> follows
  references and need not end), returns an error (\<open>Some (Inl e)\<close>) or returns a value
  (\<open>Some (Inr x)\<close>). \<open>andThen\<close> is the Go idiom \<^verbatim>\<open>if err != nil { return err }\<close>, and
  \<open>forEach\<close> a \<^verbatim>\<open>for\<close> loop whose body may return an error.
\<close>

definition andThen :: "(error + 'a) option \<Rightarrow> ('a \<Rightarrow> (error + 'b) option) \<Rightarrow> (error + 'b) option" where
  "andThen r f = (case r of None \<Rightarrow> None | Some (Inl e) \<Rightarrow> Some (Inl e) | Some (Inr x) \<Rightarrow> f x)"

fun forEach :: "('a \<Rightarrow> (error + 'b) option) \<Rightarrow> 'a list \<Rightarrow> (error + 'b list) option" where
  "forEach f [] = Some (Inr [])"
| "forEach f (x # xs) =
     andThen (f x) (\<lambda>y. andThen (forEach f xs) (\<lambda>ys. Some (Inr (y # ys))))"

subsection \<open>The AllOf Ref Resolver: \<^verbatim>\<open>resolveAllOfRefs\<close>\<close>

text \<open>
  The test \<^verbatim>\<open>entry.Ref != nil && len(*entry.Ref) > 0\<close>.
\<close>

definition hasRef :: "JSONSchemaProps \<Rightarrow> bool" where
  "hasRef entry = (case Ref entry of Some r \<Rightarrow> r \<noteq> [] | None \<Rightarrow> False)"

text \<open>
  The lookup of the schema an \<^verbatim>\<open>allOf\<close> entry refers to: the package is the one the
  reference names, found in \<^verbatim>\<open>pkgByPath\<close>, or the context's when it names none; the result
  is that package and the schema \<^verbatim>\<open>p.Schemata\<close> holds for the type.
\<close>

definition lookupRef ::
  "Library \<Rightarrow> (TypeIdent \<times> JSONSchemaProps) list \<Rightarrow> (string \<times> Package) list \<Rightarrow>
     Package option \<Rightarrow> string \<Rightarrow> error + (Package \<times> JSONSchemaProps)" where
  "lookupRef lib Schemata pkgByPath contextPkg ref =
     (case RefParts lib ref of
        None \<Rightarrow> Inl (ParseRefFailed ref)
      | Some (typeName, pkgPath) \<Rightarrow>
          (case (if pkgPath \<noteq> [] then map_of pkgByPath pkgPath else contextPkg) of
             None \<Rightarrow> Inl (PackageNotFound pkgPath ref)
           | Some pkg \<Rightarrow>
               (case map_of Schemata (TypeIdent (Some pkg) typeName) of
                  None \<Rightarrow> Inl (SchemaNotFound typeName (PkgPath pkg))
                | Some refSchema \<Rightarrow> Inr (pkg, refSchema))))"

text \<open>
  \<^verbatim>\<open>resolveAllOfRefs\<close>, on a schema that is not nil (every caller passes one). The loop over
  \<^verbatim>\<open>AllOf\<close> replaces an entry that has a reference by the resolved copy of the schema
  referred to, with the package of that schema as the new context, and resolves any other
  entry in place; the walk then goes on into the values of \<^verbatim>\<open>Properties\<close>, \<^verbatim>\<open>Items.Schema\<close>
  and \<^verbatim>\<open>AdditionalProperties.Schema\<close>. The first error ends the call. Every call takes one
  unit of fuel, so that \<open>fuel\<close> bounds the depth of the calls.
\<close>

fun resolveAllOfRefs ::
  "nat \<Rightarrow> Library \<Rightarrow> (TypeIdent \<times> JSONSchemaProps) list \<Rightarrow> (string \<times> Package) list \<Rightarrow>
     Package option \<Rightarrow> JSONSchemaProps \<Rightarrow> (error + JSONSchemaProps) option" where
  "resolveAllOfRefs 0 lib Schemata pkgByPath contextPkg schema = None"
| "resolveAllOfRefs (Suc fuel) lib Schemata pkgByPath contextPkg
     (JSONSchemaProps ref ty fmt nullable props items addProps allOf oneOf anyOf nt xmap) =
     andThen
       (forEach (\<lambda>entry.
          if hasRef entry then
            (case lookupRef lib Schemata pkgByPath contextPkg (the (Ref entry)) of
               Inl err \<Rightarrow> Some (Inl err)
             | Inr (pkg, refSchema) \<Rightarrow>
                 resolveAllOfRefs fuel lib Schemata pkgByPath (Some pkg) refSchema)
          else resolveAllOfRefs fuel lib Schemata pkgByPath contextPkg entry) allOf)
       (\<lambda>allOf'. andThen
          (forEach (\<lambda>(k, v).
             andThen (resolveAllOfRefs fuel lib Schemata pkgByPath contextPkg v)
               (\<lambda>v'. Some (Inr (k, v')))) props)
       (\<lambda>props'. andThen
          (case items of
             Some (JSONSchemaPropsOrArray (Some s) arr) \<Rightarrow>
               andThen (resolveAllOfRefs fuel lib Schemata pkgByPath contextPkg s)
                 (\<lambda>s'. Some (Inr (Some (JSONSchemaPropsOrArray (Some s') arr))))
           | _ \<Rightarrow> Some (Inr items))
       (\<lambda>items'. andThen
          (case addProps of
             Some (JSONSchemaPropsOrBool allows (Some s)) \<Rightarrow>
               andThen (resolveAllOfRefs fuel lib Schemata pkgByPath contextPkg s)
                 (\<lambda>s'. Some (Inr (Some (JSONSchemaPropsOrBool allows (Some s')))))
           | _ \<Rightarrow> Some (Inr addProps))
       (\<lambda>addProps'.
          Some (Inr (JSONSchemaProps ref ty fmt nullable props' items' addProps' allOf'
                       oneOf anyOf nt xmap))))))"

text \<open>
  What the loop over \<^verbatim>\<open>AllOf\<close> makes of one entry when it succeeds: the resolved schema of
  the type the entry refers to, or the entry itself, resolved in place.
\<close>

definition entryResolved ::
  "nat \<Rightarrow> Library \<Rightarrow> (TypeIdent \<times> JSONSchemaProps) list \<Rightarrow> (string \<times> Package) list \<Rightarrow>
     Package option \<Rightarrow> JSONSchemaProps \<Rightarrow> JSONSchemaProps \<Rightarrow> bool" where
  "entryResolved fuel lib Schemata pkgByPath contextPkg entry entry' =
     (if hasRef entry then
        (\<exists>pkg refSchema.
           lookupRef lib Schemata pkgByPath contextPkg (the (Ref entry)) = Inr (pkg, refSchema)
           \<and> resolveAllOfRefs fuel lib Schemata pkgByPath (Some pkg) refSchema = Some (Inr entry'))
      else resolveAllOfRefs fuel lib Schemata pkgByPath contextPkg entry = Some (Inr entry'))"

subsection \<open>The Ref Format Converter: \<^verbatim>\<open>convertRefs\<close>\<close>

text \<open>
  The first stanza of \<^verbatim>\<open>convertRefs\<close>, on the \<^verbatim>\<open>Ref\<close> field of one schema: a non-empty
  reference that \<^verbatim>\<open>RefParts\<close> parses is rewritten, any other is left as it is. The function
  returns no error.
\<close>

definition convertRef :: "Library \<Rightarrow> Package option \<Rightarrow> string option \<Rightarrow> string option" where
  "convertRef lib contextPkg ref =
     (case ref of
        None \<Rightarrow> None
      | Some r \<Rightarrow>
          if r \<noteq> [] then
            (case RefParts lib r of
               Some (typeName, pkgPath) \<Rightarrow>
                 (let pkgPath' = (case contextPkg of
                                    Some pkg \<Rightarrow> if pkgPath = [] then PkgPath pkg else pkgPath
                                  | None \<Rightarrow> pkgPath)
                  in Some (''#/definitions/'' @
                             ToRESTFriendlyName lib (pkgPath' @ ''.'' @ typeName)))
             | None \<Rightarrow> ref)
          else ref)"

fun convertRefs :: "Library \<Rightarrow> Package option \<Rightarrow> JSONSchemaProps \<Rightarrow> JSONSchemaProps" where
  "convertRefs lib contextPkg
     (JSONSchemaProps ref ty fmt nullable props items addProps allOf oneOf anyOf nt xmap) =
     JSONSchemaProps (convertRef lib contextPkg ref) ty fmt nullable
       (map (\<lambda>(k, v). (k, convertRefs lib contextPkg v)) props)
       (case items of
          Some (JSONSchemaPropsOrArray (Some s) arr) \<Rightarrow>
            Some (JSONSchemaPropsOrArray (Some (convertRefs lib contextPkg s)) arr)
        | _ \<Rightarrow> items)
       (case addProps of
          Some (JSONSchemaPropsOrBool allows (Some s)) \<Rightarrow>
            Some (JSONSchemaPropsOrBool allows (Some (convertRefs lib contextPkg s)))
        | _ \<Rightarrow> addProps)
       (map (convertRefs lib contextPkg) allOf)
       oneOf anyOf nt xmap"

subsection \<open>The references of a schema\<close>

text \<open>
  The \<^verbatim>\<open>Ref\<close> fields of a schema and of every schema nested in it through the values of
  \<^verbatim>\<open>Properties\<close>, the entries of \<^verbatim>\<open>AllOf\<close>, \<^verbatim>\<open>Items.Schema\<close> and
  \<^verbatim>\<open>AdditionalProperties.Schema\<close>, in the order of that walk. \<open>outerRefs\<close> leaves out what is
  inside an entry of \<^verbatim>\<open>AllOf\<close>.
\<close>

fun allRefs :: "JSONSchemaProps \<Rightarrow> string option list" where
  "allRefs (JSONSchemaProps ref ty fmt nullable props items addProps allOf oneOf anyOf nt xmap) =
     ref # concat (map (\<lambda>(k, v). allRefs v) props) @ concat (map allRefs allOf)
       @ (case items of Some (JSONSchemaPropsOrArray (Some s) arr) \<Rightarrow> allRefs s | _ \<Rightarrow> [])
       @ (case addProps of Some (JSONSchemaPropsOrBool allows (Some s)) \<Rightarrow> allRefs s | _ \<Rightarrow> [])"

fun outerRefs :: "JSONSchemaProps \<Rightarrow> string option list" where
  "outerRefs (JSONSchemaProps ref ty fmt nullable props items addProps allOf oneOf anyOf nt xmap) =
     ref # concat (map (\<lambda>(k, v). outerRefs v) props)
       @ (case items of Some (JSONSchemaPropsOrArray (Some s) arr) \<Rightarrow> outerRefs s | _ \<Rightarrow> [])
       @ (case addProps of Some (JSONSchemaPropsOrBool allows (Some s)) \<Rightarrow> outerRefs s | _ \<Rightarrow> [])"

text \<open>
  A schema with every \<^verbatim>\<open>AllOf\<close> emptied, in the schema itself and in every schema nested
  through the values of \<^verbatim>\<open>Properties\<close>, \<^verbatim>\<open>Items.Schema\<close> and \<^verbatim>\<open>AdditionalProperties.Schema\<close>:
  what a schema holds outside its \<^verbatim>\<open>allOf\<close> entries.
\<close>

fun withoutAllOf :: "JSONSchemaProps \<Rightarrow> JSONSchemaProps" where
  "withoutAllOf
     (JSONSchemaProps ref ty fmt nullable props items addProps allOf oneOf anyOf nt xmap) =
     JSONSchemaProps ref ty fmt nullable
       (map (\<lambda>(k, v). (k, withoutAllOf v)) props)
       (case items of
          Some (JSONSchemaPropsOrArray (Some s) arr) \<Rightarrow>
            Some (JSONSchemaPropsOrArray (Some (withoutAllOf s)) arr)
        | _ \<Rightarrow> items)
       (case addProps of
          Some (JSONSchemaPropsOrBool allows (Some s)) \<Rightarrow>
            Some (JSONSchemaPropsOrBool allows (Some (withoutAllOf s)))
        | _ \<Rightarrow> addProps)
       [] oneOf anyOf nt xmap"

text \<open>
  No entry of \<^verbatim>\<open>AllOf\<close> carries a reference, in the schema itself and in every schema
  nested through \<^verbatim>\<open>AllOf\<close>, \<^verbatim>\<open>Properties\<close>, \<^verbatim>\<open>Items.Schema\<close> and \<^verbatim>\<open>AdditionalProperties.Schema\<close>.
\<close>

fun allOfResolved :: "JSONSchemaProps \<Rightarrow> bool" where
  "allOfResolved
     (JSONSchemaProps ref ty fmt nullable props items addProps allOf oneOf anyOf nt xmap) =
     (list_all (\<lambda>entry. \<not> hasRef entry \<and> allOfResolved entry) allOf
      \<and> list_all (\<lambda>(k, v). allOfResolved v) props
      \<and> (case items of
            Some (JSONSchemaPropsOrArray (Some s) arr) \<Rightarrow> allOfResolved s | _ \<Rightarrow> True)
      \<and> (case addProps of
            Some (JSONSchemaPropsOrBool allows (Some s)) \<Rightarrow> allOfResolved s | _ \<Rightarrow> True))"

subsection \<open>The Alias Resolver: \<^verbatim>\<open>resolveRefDefinitions\<close>\<close>

definition TrimPrefix :: "string \<Rightarrow> string \<Rightarrow> string" where
  "TrimPrefix s prefix =
     (if take (length prefix) s = prefix then drop (length prefix) s else s)"

definition refPrefix :: string where
  "refPrefix = ''#/definitions/''"

text \<open>
  The map \<^verbatim>\<open>resolved\<close>: a copy of the target (\<^verbatim>\<open>maps.Copy\<close> into an empty map) into which
  every entry of \<^verbatim>\<open>defMap\<close> but \<^verbatim>\<open>$ref\<close> is then assigned. The keys of a Go map are distinct,
  so the order of the assignments does not matter.
\<close>

definition mergeExtras :: "jmap \<Rightarrow> jmap \<Rightarrow> jmap" where
  "mergeExtras targetMap defMap =
     foldr (\<lambda>(k, v) resolved. if k = ''$ref'' then resolved else AList.update k v resolved)
       defMap targetMap"

text \<open>
  One pass of the loop body of \<^verbatim>\<open>resolveRefDefinitions\<close>, for the key \<open>key\<close>, on the map
  as it is when the loop reaches that key.
\<close>

definition resolveDefinition :: "jmap \<Rightarrow> string \<Rightarrow> jmap" where
  "resolveDefinition definitions key =
     (case map_of definitions key of
        Some (JObject defMap) \<Rightarrow>
          (case map_of defMap ''$ref'' of
             Some (JString ref) \<Rightarrow>
               (case map_of definitions (TrimPrefix ref refPrefix) of
                  Some (JObject targetMap) \<Rightarrow>
                    AList.update key (JObject (mergeExtras targetMap defMap)) definitions
                | _ \<Rightarrow> definitions)
           | _ \<Rightarrow> definitions)
      | _ \<Rightarrow> definitions)"

text \<open>
  \<^verbatim>\<open>range\<close> over a Go map visits every key once, in an order the language leaves open;
  \<open>order\<close> is that order. The loop assigns to the map it ranges over, so a later pass
  reads what an earlier one wrote.
\<close>

definition resolveRefDefinitions :: "string list \<Rightarrow> jmap \<Rightarrow> jmap" where
  "resolveRefDefinitions order definitions = foldl resolveDefinition definitions order"

subsection \<open>Document assembly: the loop of \<^verbatim>\<open>buildOpenAPISchema\<close>\<close>

text \<open>
  The map \<^verbatim>\<open>pkgByPath\<close>, from the keys of \<^verbatim>\<open>p.Schemata\<close>.
\<close>

definition buildPkgByPath :: "(TypeIdent \<times> JSONSchemaProps) list \<Rightarrow> (string \<times> Package) list" where
  "buildPkgByPath Schemata =
     foldl (\<lambda>pkgByPath (ident, s).
              case Package ident of
                Some pkg \<Rightarrow> AList.update (PkgPath pkg) pkg pkgByPath
              | None \<Rightarrow> pkgByPath) [] Schemata"

text \<open>
  The key of a definition: \<^verbatim>\<open>util.ToRESTFriendlyName(pkgPath + "." + ident.Name)\<close>.
\<close>

definition definitionKey :: "Library \<Rightarrow> TypeIdent \<Rightarrow> string" where
  "definitionKey lib ident =
     ToRESTFriendlyName lib
       ((case Package ident of Some pkg \<Rightarrow> PkgPath pkg | None \<Rightarrow> []) @ ''.'' @ Name ident)"

definition groupVersionKind :: "GroupVersion \<Rightarrow> string \<Rightarrow> json" where
  "groupVersionKind gv kind =
     JArray [JObject [(''group'', JString (Group gv)), (''version'', JString (Version gv)),
                      (''kind'', JString kind)]]"

text \<open>
  What the loop does with one type, up to the assignment \<^verbatim>\<open>definitions[key] = schemaMap\<close>:
  the key and the map assigned, or the error returned.
\<close>

definition definitionFor ::
  "nat \<Rightarrow> Library \<Rightarrow> Package \<Rightarrow> string set \<Rightarrow> GroupVersion \<Rightarrow>
     (TypeIdent \<times> JSONSchemaProps) list \<Rightarrow> (string \<times> Package) list \<Rightarrow>
     TypeIdent \<times> JSONSchemaProps \<Rightarrow> (error + string \<times> jmap) option" where
  "definitionFor fuel lib root crdTypeSet gv Schemata pkgByPath entry =
     (case entry of (ident, s) \<Rightarrow>
        (case resolveAllOfRefs fuel lib Schemata pkgByPath (Package ident) s of
           None \<Rightarrow> None
         | Some (Inl err) \<Rightarrow> Some (Inl (ResolveAllOfRefsFailed (Name ident) err))
         | Some (Inr schema) \<Rightarrow>
             (case Marshal lib (convertRefs lib (Package ident)
                                 (FlattenEmbedded lib schema (Package ident))) of
                None \<Rightarrow> Some (Inl (MarshalFailed (Name ident)))
              | Some schemaMap \<Rightarrow>
                  (let sanitized = sanitizeForOpenAPIV2 schemaMap
                   in Some (Inr (definitionKey lib ident,
                        if Package ident = Some root \<and> Name ident \<in> crdTypeSet
                        then AList.update ''x-kubernetes-group-version-kind''
                               (groupVersionKind gv (Name ident)) sanitized
                        else sanitized))))))"

text \<open>
  The loop over \<^verbatim>\<open>p.Schemata\<close>, in the order \<^verbatim>\<open>range\<close> yields its entries: the first error
  ends it; otherwise each definition is assigned at its key.
\<close>

fun assemble ::
  "((TypeIdent \<times> JSONSchemaProps) \<Rightarrow> (error + string \<times> jmap) option) \<Rightarrow>
     (TypeIdent \<times> JSONSchemaProps) list \<Rightarrow> jmap \<Rightarrow> (error + jmap) option" where
  "assemble body [] definitions = Some (Inr definitions)"
| "assemble body (entry # rest) definitions =
     (case body entry of
        None \<Rightarrow> None
      | Some (Inl err) \<Rightarrow> Some (Inl err)
      | Some (Inr (key, schemaMap)) \<Rightarrow>
          assemble body rest (AList.update key (JObject schemaMap) definitions))"

text \<open>
  Lines 84 to 140 of \<^verbatim>\<open>buildOpenAPISchema\<close>, which run when the package has a root type:
  \<^verbatim>\<open>pkgByPath\<close>, the loop, and the Alias Resolver on the assembled map. The result is the
  \<^verbatim>\<open>definitions\<close> map the envelope is then built around.
\<close>

definition buildDefinitions ::
  "nat \<Rightarrow> Library \<Rightarrow> Package \<Rightarrow> string set \<Rightarrow> GroupVersion \<Rightarrow>
     (TypeIdent \<times> JSONSchemaProps) list \<Rightarrow> string list \<Rightarrow> (error + jmap) option" where
  "buildDefinitions fuel lib root crdTypeSet gv Schemata order =
     (case assemble (definitionFor fuel lib root crdTypeSet gv Schemata (buildPkgByPath Schemata))
             Schemata [] of
        None \<Rightarrow> None
      | Some (Inl err) \<Rightarrow> Some (Inl err)
      | Some (Inr definitions) \<Rightarrow> Some (Inr (resolveRefDefinitions order definitions)))"

subsection \<open>The library functions, for the examples\<close>

text \<open>
  The theorems below are about any \<open>Library\<close>. Their examples need one to run on, which
  this subsection provides. \<open>splitOn\<close> and \<open>joinWith\<close> are \<^verbatim>\<open>strings.Split\<close> and
  \<^verbatim>\<open>strings.Join\<close> for a separator of one character, and \<open>replace2\<close> is
  \<^verbatim>\<open>strings.Replace\<close> of every occurrence of two given characters by one.
\<close>

fun splitOn :: "char \<Rightarrow> string \<Rightarrow> string list" where
  "splitOn sep [] = [[]]"
| "splitOn sep (c # cs) =
     (if c = sep then [] # splitOn sep cs
      else (case splitOn sep cs of p # ps \<Rightarrow> (c # p) # ps | [] \<Rightarrow> [[c]]))"

fun joinWith :: "char \<Rightarrow> string list \<Rightarrow> string" where
  "joinWith sep [] = []"
| "joinWith sep [p] = p"
| "joinWith sep (p # q # ps) = p @ sep # joinWith sep (q # ps)"

fun replace2 :: "char \<Rightarrow> char \<Rightarrow> char \<Rightarrow> string \<Rightarrow> string" where
  "replace2 a b new (x # y # r) =
     (if x = a \<and> y = b then new # replace2 a b new r else x # replace2 a b new (y # r))"
| "replace2 a b new r = r"

text \<open>
  Modelled from the spec: \<^verbatim>\<open>util.ToRESTFriendlyName\<close> of kube-openapi, the name-friendliness
  transform, is not among the sources. As documented for that library, the name is split
  at \<^verbatim>\<open>/\<close>, the dot-separated parts of its first component are reversed when it contains a
  dot, and the components are joined with dots: \<^verbatim>\<open>k8s.io/api/core/v1.Pod\<close> becomes
  \<^verbatim>\<open>io.k8s.api.core.v1.Pod\<close>.
\<close>

definition toRESTFriendlyName_model :: "string \<Rightarrow> string" where
  "toRESTFriendlyName_model name =
     (case splitOn CHR ''/'' name of
        [] \<Rightarrow> []
      | first # rest \<Rightarrow>
          joinWith CHR ''.''
            ((if CHR ''.'' \<in> set first then joinWith CHR ''.'' (rev (splitOn CHR ''.'' first))
              else first) # rest))"

text \<open>
  Modelled from the spec: \<^verbatim>\<open>crd.RefParts\<close>, the parser of internal references, is not among
  the sources. The comment on \<^verbatim>\<open>convertRefs\<close> gives the format,
  \<^verbatim>\<open>#/definitions/pkg~1path~0TypeName\<close>: after the prefix, \<^verbatim>\<open>~1\<close> stands for \<^verbatim>\<open>/\<close> and \<^verbatim>\<open>~0\<close>
  for \<^verbatim>\<open>~\<close>, which separates the package path from the type name; a reference with no
  package is the type name alone, and a string without the prefix does not parse.
\<close>

definition refParts_model :: "string \<Rightarrow> (string \<times> string) option" where
  "refParts_model ref =
     (if take (length refPrefix) ref = refPrefix then
        (let decoded = replace2 CHR ''~'' CHR ''0'' CHR ''~''
                         (replace2 CHR ''~'' CHR ''1'' CHR ''/'' (drop (length refPrefix) ref));
             first = takeWhile (\<lambda>c. c \<noteq> CHR ''~'') decoded;
             rest = dropWhile (\<lambda>c. c \<noteq> CHR ''~'') decoded
         in if rest = [] then Some (first, []) else Some (tl rest, first))
      else None)"

text \<open>
  Modelled from the spec: the JSON encoding of \<^verbatim>\<open>JSONSchemaProps\<close> belongs to the
  apiextensions library. Each field is written under its JSON name and left out when it
  is empty (a nil pointer, an empty string, map or slice, \<^verbatim>\<open>false\<close>); \<^verbatim>\<open>items\<close> is the schema
  or, when \<^verbatim>\<open>JSONSchemas\<close> is not empty, the array; \<^verbatim>\<open>additionalProperties\<close> is the schema or,
  without one, the boolean.
\<close>

fun marshal_model :: "JSONSchemaProps \<Rightarrow> jmap" where
  "marshal_model
     (JSONSchemaProps ref ty fmt nullable props items addProps allOf oneOf anyOf nt xmap) =
     (case ref of Some r \<Rightarrow> [(''$ref'', JString r)] | None \<Rightarrow> []) @
     (if ty = [] then [] else [(''type'', JString ty)]) @
     (if fmt = [] then [] else [(''format'', JString fmt)]) @
     (if nullable then [(''nullable'', JBool True)] else []) @
     (if props = [] then []
      else [(''properties'', JObject (map (\<lambda>(k, v). (k, JObject (marshal_model v))) props))]) @
     (case items of
        None \<Rightarrow> []
      | Some (JSONSchemaPropsOrArray s arr) \<Rightarrow>
          [(''items'',
            if arr \<noteq> [] then JArray (map (\<lambda>v. JObject (marshal_model v)) arr)
            else (case s of Some v \<Rightarrow> JObject (marshal_model v) | None \<Rightarrow> JNull))]) @
     (case addProps of
        None \<Rightarrow> []
      | Some (JSONSchemaPropsOrBool allows s) \<Rightarrow>
          [(''additionalProperties'',
            case s of Some v \<Rightarrow> JObject (marshal_model v) | None \<Rightarrow> JBool allows)]) @
     (if allOf = [] then []
      else [(''allOf'', JArray (map (\<lambda>v. JObject (marshal_model v)) allOf))]) @
     (if oneOf = [] then []
      else [(''oneOf'', JArray (map (\<lambda>v. JObject (marshal_model v)) oneOf))]) @
     (if anyOf = [] then []
      else [(''anyOf'', JArray (map (\<lambda>v. JObject (marshal_model v)) anyOf))]) @
     (case nt of Some v \<Rightarrow> [(''not'', JObject (marshal_model v))] | None \<Rightarrow> []) @
     (case xmap of Some m \<Rightarrow> [(''x-kubernetes-map-type'', JString m)] | None \<Rightarrow> [])"

text \<open>
  Modelled from the spec: \<^verbatim>\<open>crd.FlattenEmbedded\<close> is not among the sources. It merges the
  entries of \<^verbatim>\<open>allOf\<close> into their owner; the examples that run the whole pipeline use
  schemas without \<^verbatim>\<open>allOf\<close>, on which it has nothing to merge.
\<close>

definition library_model :: Library where
  "library_model =
     \<lparr>RefParts = refParts_model,
      ToRESTFriendlyName = toRESTFriendlyName_model,
      FlattenEmbedded = (\<lambda>schema pkg. schema),
      Marshal = (\<lambda>schema. Some (marshal_model schema))\<rparr>"

text \<open>
  A schema with every field empty, and the schemas the examples are built from.
\<close>

definition emptySchema :: JSONSchemaProps where
  "emptySchema = JSONSchemaProps None [] [] False [] None None [] [] [] None None"

definition refTo :: "string \<Rightarrow> JSONSchemaProps" where
  "refTo r = JSONSchemaProps (Some r) [] [] False [] None None [] [] [] None None"

definition typed :: "string \<Rightarrow> JSONSchemaProps" where
  "typed ty = JSONSchemaProps None ty [] False [] None None [] [] [] None None"

definition object :: "(string \<times> JSONSchemaProps) list \<Rightarrow> JSONSchemaProps list \<Rightarrow> JSONSchemaProps" where
  "object props allOf =
     JSONSchemaProps None ''object'' [] False props None None allOf [] [] None None"

subsection \<open>The pipeline in the order the specification gives\<close>

text \<open>
  The specification lists the Alias Resolver as stage 6 and the Version Sanitizer as
  stage 7, run last over every definition. The definitions of this subsection follow
  those words, for comparison with \<open>buildDefinitions\<close>: the loop assembles the definitions
  without sanitizing them, the Alias Resolver runs on the assembled map, and the sanitizer
  then runs on every definition of the result.
\<close>

definition definitionFor_unsanitized ::
  "nat \<Rightarrow> Library \<Rightarrow> Package \<Rightarrow> string set \<Rightarrow> GroupVersion \<Rightarrow>
     (TypeIdent \<times> JSONSchemaProps) list \<Rightarrow> (string \<times> Package) list \<Rightarrow>
     TypeIdent \<times> JSONSchemaProps \<Rightarrow> (error + string \<times> jmap) option" where
  "definitionFor_unsanitized fuel lib root crdTypeSet gv Schemata pkgByPath entry =
     (case entry of (ident, s) \<Rightarrow>
        (case resolveAllOfRefs fuel lib Schemata pkgByPath (Package ident) s of
           None \<Rightarrow> None
         | Some (Inl err) \<Rightarrow> Some (Inl (ResolveAllOfRefsFailed (Name ident) err))
         | Some (Inr schema) \<Rightarrow>
             (case Marshal lib (convertRefs lib (Package ident)
                                 (FlattenEmbedded lib schema (Package ident))) of
                None \<Rightarrow> Some (Inl (MarshalFailed (Name ident)))
              | Some schemaMap \<Rightarrow>
                  Some (Inr (definitionKey lib ident,
                    if Package ident = Some root \<and> Name ident \<in> crdTypeSet
                    then AList.update ''x-kubernetes-group-version-kind''
                           (groupVersionKind gv (Name ident)) schemaMap
                    else schemaMap)))))"

definition sanitizeDefinitions :: "jmap \<Rightarrow> jmap" where
  "sanitizeDefinitions definitions =
     map (\<lambda>(key, d). (key, onObject sanitizeForOpenAPIV2 d)) definitions"

definition buildDefinitions_spec ::
  "nat \<Rightarrow> Library \<Rightarrow> Package \<Rightarrow> string set \<Rightarrow> GroupVersion \<Rightarrow>
     (TypeIdent \<times> JSONSchemaProps) list \<Rightarrow> string list \<Rightarrow> (error + jmap) option" where
  "buildDefinitions_spec fuel lib root crdTypeSet gv Schemata order =
     (case assemble (definitionFor_unsanitized fuel lib root crdTypeSet gv Schemata
                       (buildPkgByPath Schemata)) Schemata [] of
        None \<Rightarrow> None
      | Some (Inl err) \<Rightarrow> Some (Inl err)
      | Some (Inr definitions) \<Rightarrow>
          Some (Inr (sanitizeDefinitions (resolveRefDefinitions order definitions))))"

section \<open>Properties of the Version Sanitizer\<close>

lemma delete_absent: "k \<notin> set (map fst m) \<Longrightarrow> AList.delete k m = m"
  by (induction m) auto

lemma keys_delete: "set (map fst (AList.delete k m)) = set (map fst m) - {k}"
  by (induction m) auto

lemma has_key_keys: "has_key m k \<longleftrightarrow> k \<in> set (map fst m)"
  by (simp add: has_key_def map_of_eq_None_iff)

lemma keys_stripUnsupported:
  "set (map fst (stripUnsupported s)) =
     set (map fst s) - {''nullable'', ''anyOf'', ''oneOf'', ''not''}
       - (if has_key s ''$ref'' then {''type'', ''format''} else {})"
  unfolding stripUnsupported_def Let_def
  by (auto simp: keys_delete simp del: set_map)

lemma stripUnsupported_fixed:
  assumes "map fst m = map fst (stripUnsupported s)"
  shows "stripUnsupported m = m"
proof -
  have k: "set (map fst m) = set (map fst s) - {''nullable'', ''anyOf'', ''oneOf'', ''not''}
       - (if has_key s ''$ref'' then {''type'', ''format''} else {})"
    using assms keys_stripUnsupported by simp
  have r: "has_key m ''$ref'' \<Longrightarrow> has_key s ''$ref''"
    unfolding has_key_keys k by (simp split: if_splits)
  have d: "AList.delete k m = m" if "k \<in> {''nullable'', ''anyOf'', ''oneOf'', ''not''}" for k
    using that k by (intro delete_absent) auto
  have e: "AList.delete k m = m" if "has_key m ''$ref''" "k \<in> {''type'', ''format''}" for k
    using that r k by (intro delete_absent) auto
  show ?thesis
    unfolding stripUnsupported_def Let_def by (simp add: d e)
qed

lemma onObject_idem:
  "(\<And>m. v = JObject m \<Longrightarrow> f (f m) = f m) \<Longrightarrow> onObject f (onObject f v) = onObject f v"
  by (cases v) (simp_all add: onObject_def)

lemma onValues_idem:
  "(\<And>props k m. v = JObject props \<Longrightarrow> (k, JObject m) \<in> set props \<Longrightarrow> f (f m) = f m)
    \<Longrightarrow> onValues f (onValues f v) = onValues f v"
  by (cases v) (auto simp: onValues_def intro!: onObject_idem)

lemma onElems_idem:
  "(\<And>xs m. v = JArray xs \<Longrightarrow> JObject m \<in> set xs \<Longrightarrow> f (f m) = f m)
    \<Longrightarrow> onElems f (onElems f v) = onElems f v"
  by (cases v) (auto simp: onElems_def intro!: onObject_idem)

lemma nested_keys: "map fst (nested f m) = map fst m"
  by (simp add: nested_def map_entry_keys)

lemma map_of_nested:
  "map_of (nested f m) k =
     (if k = ''properties'' then map_option (onValues f) (map_of m k)
      else if k = ''items'' \<or> k = ''additionalProperties'' then map_option (onObject f) (map_of m k)
      else if k = ''allOf'' then map_option (onElems f) (map_of m k)
      else map_of m k)"
  by (auto simp: nested_def map_of_map_entry split: option.splits)

lemma sanitize_unfold:
  "sanitizeForOpenAPIV2 s = nested sanitizeForOpenAPIV2 (stripUnsupported s)"
  by (subst sanitizeForOpenAPIV2.simps) (simp add: sanitize_body_entries nested_def)

lemma nested_idem:
  assumes p: "\<And>v. map_of m ''properties'' = Some v \<Longrightarrow> onValues f (onValues f v) = onValues f v"
    and i: "\<And>v. map_of m ''items'' = Some v \<Longrightarrow> onObject f (onObject f v) = onObject f v"
    and a: "\<And>v. map_of m ''additionalProperties'' = Some v \<Longrightarrow> onObject f (onObject f v) = onObject f v"
    and l: "\<And>v. map_of m ''allOf'' = Some v \<Longrightarrow> onElems f (onElems f v) = onElems f v"
  shows "nested f (nested f m) = nested f m"
proof -
  let ?r = "nested f m"
  have 1: "AList.map_entry ''properties'' (onValues f) ?r = ?r"
    by (rule map_entry_ident) (auto simp: map_of_nested p)
  have 2: "AList.map_entry ''items'' (onObject f) ?r = ?r"
    by (rule map_entry_ident) (auto simp: map_of_nested i)
  have 3: "AList.map_entry ''additionalProperties'' (onObject f) ?r = ?r"
    by (rule map_entry_ident) (auto simp: map_of_nested a)
  have 4: "AList.map_entry ''allOf'' (onElems f) ?r = ?r"
    by (rule map_entry_ident) (auto simp: map_of_nested l)
  show ?thesis
    by (subst (1) nested_def) (simp only: 1 2 3 4)
qed

lemma map_of_stripUnsupported:
  "map_of (stripUnsupported s) k =
     (if k \<in> {''nullable'', ''anyOf'', ''oneOf'', ''not''} then None
      else if has_key s ''$ref'' \<and> k \<in> {''type'', ''format''} then None
      else map_of s k)"
  unfolding stripUnsupported_def Let_def
  by (auto simp: delete_conv')

lemma map_of_sanitize:
  "map_of (sanitizeForOpenAPIV2 s) k =
     (if k \<in> {''nullable'', ''anyOf'', ''oneOf'', ''not''} then None
      else if has_key s ''$ref'' \<and> k \<in> {''type'', ''format''} then None
      else if k = ''properties'' then map_option (onValues sanitizeForOpenAPIV2) (map_of s k)
      else if k = ''items'' \<or> k = ''additionalProperties''
        then map_option (onObject sanitizeForOpenAPIV2) (map_of s k)
      else if k = ''allOf'' then map_option (onElems sanitizeForOpenAPIV2) (map_of s k)
      else map_of s k)"
  by (auto simp: sanitize_unfold [of s] map_of_nested map_of_stripUnsupported)

lemma map_of_onValues:
  "map_of (map (\<lambda>(k, w). (k, f w)) props) name = map_option f (map_of props name)"
  by (induction props) auto

lemma fragmentAt_sanitize:
  "fragmentAt p (sanitizeForOpenAPIV2 D) = map_option sanitizeForOpenAPIV2 (fragmentAt p D)"
proof (induction p D rule: fragmentAt.induct)
  case (1 m)
  then show ?case by simp
next
  case (2 name p m)
  show ?case
  proof (cases "map_of m ''properties''")
    case None
    then show ?thesis by (simp add: map_of_sanitize)
  next
    case (Some v)
    show ?thesis
    proof (cases v)
      case (JObject props)
      show ?thesis
      proof (cases "map_of props name")
        case None
        then show ?thesis
          using Some JObject by (simp add: map_of_sanitize onValues_def map_of_onValues)
      next
        case inner: (Some w)
        show ?thesis
        proof (cases w)
          case sub: (JObject sub)
          then show ?thesis
            using Some JObject inner "2.IH" [OF Some JObject inner sub]
            by (simp add: map_of_sanitize onValues_def map_of_onValues onObject_def)
        qed (use Some JObject inner in \<open>simp_all add: map_of_sanitize onValues_def map_of_onValues onObject_def\<close>)
      qed
    qed (use Some in \<open>simp_all add: map_of_sanitize onValues_def\<close>)
  qed
next
  case (3 p m)
  show ?case
  proof (cases "map_of m ''items''")
    case None
    then show ?thesis by (simp add: map_of_sanitize)
  next
    case (Some v)
    show ?thesis
    proof (cases v)
      case (JObject sub)
      then show ?thesis
        using Some "3.IH" [OF Some JObject] by (simp add: map_of_sanitize onObject_def)
    qed (use Some in \<open>simp_all add: map_of_sanitize onObject_def\<close>)
  qed
next
  case (4 p m)
  show ?case
  proof (cases "map_of m ''additionalProperties''")
    case None
    then show ?thesis by (simp add: map_of_sanitize)
  next
    case (Some v)
    show ?thesis
    proof (cases v)
      case (JObject sub)
      then show ?thesis
        using Some "4.IH" [OF Some JObject] by (simp add: map_of_sanitize onObject_def)
    qed (use Some in \<open>simp_all add: map_of_sanitize onObject_def\<close>)
  qed
next
  case (5 i p m)
  show ?case
  proof (cases "map_of m ''allOf''")
    case None
    then show ?thesis by (simp add: map_of_sanitize)
  next
    case (Some v)
    show ?thesis
    proof (cases v)
      case (JArray xs)
      show ?thesis
      proof (cases "i < length xs")
        case True
        show ?thesis
        proof (cases "xs ! i")
          case (JObject sub)
          then show ?thesis
            using Some JArray True "5.IH" [OF Some JArray True JObject]
            by (simp add: map_of_sanitize onElems_def onObject_def)
        qed (use Some JArray True in \<open>simp_all add: map_of_sanitize onElems_def onObject_def\<close>)
      next
        case False
        then show ?thesis
          using Some JArray by (simp add: map_of_sanitize onElems_def)
      qed
    qed (use Some in \<open>simp_all add: map_of_sanitize onElems_def\<close>)
  qed
qed

section \<open>Properties of the Alias Resolver\<close>

lemma map_of_mergeExtras:
  "map_of (mergeExtras targetMap defMap) k =
     (if k \<noteq> ''$ref'' \<and> has_key defMap k then map_of defMap k else map_of targetMap k)"
proof (induction defMap)
  case Nil
  then show ?case by (simp add: mergeExtras_def has_key_def)
next
  case (Cons e defMap)
  obtain k' v where e: "e = (k', v)" by (cases e)
  have step: "mergeExtras targetMap ((k', v) # defMap) =
      (if k' = ''$ref'' then mergeExtras targetMap defMap
       else AList.update k' v (mergeExtras targetMap defMap))"
    by (simp add: mergeExtras_def)
  show ?case
    using Cons.IH by (auto simp: step e has_key_def update_conv')
qed

lemma resolveDefinition_other:
  "k \<noteq> key \<Longrightarrow> map_of (resolveDefinition definitions key) k = map_of definitions k"
  by (auto simp: resolveDefinition_def update_conv' split: option.splits json.splits)

lemma resolveDefinition_absent:
  "map_of (resolveDefinition definitions key) k = None \<longleftrightarrow> map_of definitions k = None"
  by (auto simp: resolveDefinition_def update_conv' split: option.splits json.splits if_splits)

lemma resolveDefinition_object:
  "map_of definitions k = Some (JObject m) \<Longrightarrow>
     \<exists>m'. map_of (resolveDefinition definitions key) k = Some (JObject m')"
  by (auto simp: resolveDefinition_def update_conv' split: option.splits json.splits)

lemma resolveDefinition_not_alias:
  "map_of definitions key = Some (JObject m) \<Longrightarrow> \<forall>r. map_of m ''$ref'' \<noteq> Some (JString r) \<Longrightarrow>
     resolveDefinition definitions key = definitions"
  by (auto simp: resolveDefinition_def split: option.splits json.splits)

lemma resolveRefDefinitions_Nil: "resolveRefDefinitions [] definitions = definitions"
  by (simp add: resolveRefDefinitions_def)

lemma resolveRefDefinitions_Cons:
  "resolveRefDefinitions (key # order) definitions =
     resolveRefDefinitions order (resolveDefinition definitions key)"
  by (simp add: resolveRefDefinitions_def)

lemma resolveRefDefinitions_append:
  "resolveRefDefinitions (before @ after) definitions =
     resolveRefDefinitions after (resolveRefDefinitions before definitions)"
  by (simp add: resolveRefDefinitions_def)

lemma resolveRefDefinitions_unvisited:
  "key \<notin> set order \<Longrightarrow>
     map_of (resolveRefDefinitions order definitions) key = map_of definitions key"
  by (induction order arbitrary: definitions)
     (auto simp: resolveRefDefinitions_Nil resolveRefDefinitions_Cons resolveDefinition_other)

lemma resolveRefDefinitions_absent:
  "map_of (resolveRefDefinitions order definitions) k = None \<longleftrightarrow> map_of definitions k = None"
  by (induction order arbitrary: definitions)
     (auto simp: resolveRefDefinitions_Nil resolveRefDefinitions_Cons resolveDefinition_absent)

lemma resolveRefDefinitions_object:
  "map_of definitions k = Some (JObject m) \<Longrightarrow>
     \<exists>m'. map_of (resolveRefDefinitions order definitions) k = Some (JObject m')"
proof (induction order arbitrary: definitions m)
  case Nil
  then show ?case by (simp add: resolveRefDefinitions_Nil)
next
  case (Cons key order)
  from resolveDefinition_object [OF Cons.prems, of key] obtain m'
    where "map_of (resolveDefinition definitions key) k = Some (JObject m')" ..
  from Cons.IH [OF this] show ?case by (simp add: resolveRefDefinitions_Cons)
qed

lemma resolveRefDefinitions_not_alias:
  "map_of definitions k = Some (JObject m) \<Longrightarrow> \<forall>r. map_of m ''$ref'' \<noteq> Some (JString r) \<Longrightarrow>
     map_of (resolveRefDefinitions order definitions) k = Some (JObject m)"
proof (induction order arbitrary: definitions)
  case Nil
  then show ?case by (simp add: resolveRefDefinitions_Nil)
next
  case (Cons key order)
  have "map_of (resolveDefinition definitions key) k = Some (JObject m)"
  proof (cases "k = key")
    case True
    then show ?thesis using Cons.prems by (simp add: resolveDefinition_not_alias)
  next
    case False
    then show ?thesis using Cons.prems by (simp add: resolveDefinition_other)
  qed
  from Cons.IH [OF this Cons.prems(2)] show ?case by (simp add: resolveRefDefinitions_Cons)
qed

lemma dangling_alias_kept:
  assumes "map_of definitions key = Some (JObject defMap)"
    and "map_of defMap ''$ref'' = Some (JString ref)"
    and "map_of definitions (TrimPrefix ref refPrefix) = None"
  shows "map_of (resolveRefDefinitions order definitions) key = Some (JObject defMap)"
  using assms
proof (induction order arbitrary: definitions)
  case Nil
  then show ?case by (simp add: resolveRefDefinitions_Nil)
next
  case (Cons k order)
  have 1: "map_of (resolveDefinition definitions k) key = Some (JObject defMap)"
  proof (cases "k = key")
    case True
    then show ?thesis using Cons.prems by (simp add: resolveDefinition_def)
  next
    case False
    then show ?thesis using Cons.prems by (simp add: resolveDefinition_other)
  qed
  have 2: "map_of (resolveDefinition definitions k) (TrimPrefix ref refPrefix) = None"
    using Cons.prems(3) by (simp add: resolveDefinition_absent)
  from Cons.IH [OF 1 Cons.prems(2) 2] show ?case by (simp add: resolveRefDefinitions_Cons)
qed

section \<open>Properties of document assembly\<close>

lemma definitionFor_key:
  "definitionFor fuel lib root crdTypeSet gv Schemata pkgByPath (ident, s) = Some (Inr (key, m))
     \<Longrightarrow> key = definitionKey lib ident"
  by (auto simp: definitionFor_def Let_def split: option.splits sum.splits)

lemma assemble_other_keys:
  assumes "list_all (\<lambda>e. \<exists>k m. body e = Some (Inr (k, m)) \<and> k \<noteq> key) entries"
  shows "\<exists>definitions'. assemble body entries definitions = Some (Inr definitions')
           \<and> map_of definitions' key = map_of definitions key"
  using assms
proof (induction entries arbitrary: definitions)
  case Nil
  then show ?case by simp
next
  case (Cons e entries)
  from Cons.prems obtain k m where e: "body e = Some (Inr (k, m))" "k \<noteq> key"
    and rest: "list_all (\<lambda>e. \<exists>k m. body e = Some (Inr (k, m)) \<and> k \<noteq> key) entries"
    by auto
  from Cons.IH [OF rest, of "AList.update k (JObject m) definitions"] e show ?case
    by (auto simp: update_conv')
qed

lemma assemble_last_assignment:
  assumes "list_all (\<lambda>e. \<exists>d. body e = Some (Inr d)) before"
    and "body entry = Some (Inr (key, schemaMap))"
    and "list_all (\<lambda>e. \<exists>k m. body e = Some (Inr (k, m)) \<and> k \<noteq> key) after"
  shows "\<exists>definitions'. assemble body (before @ entry # after) definitions = Some (Inr definitions')
           \<and> map_of definitions' key = Some (JObject schemaMap)"
  using assms(1)
proof (induction before arbitrary: definitions)
  case Nil
  from assemble_other_keys [OF assms(3), of "AList.update key (JObject schemaMap) definitions"]
  show ?case using assms(2) by (auto simp: update_conv')
next
  case (Cons e before)
  from Cons.prems obtain k m where e: "body e = Some (Inr (k, m))"
    and rest: "list_all (\<lambda>e. \<exists>d. body e = Some (Inr d)) before"
    by auto
  from Cons.IH [OF rest, of "AList.update k (JObject m) definitions"] e show ?case
    by auto
qed

lemma map_entry_update_other:
  "k \<noteq> k' \<Longrightarrow> AList.map_entry k' F (AList.update k v m) = AList.update k v (AList.map_entry k' F m)"
  by (induction m) auto

lemma nested_update_other:
  assumes "k \<notin> {''properties'', ''items'', ''additionalProperties'', ''allOf''}"
  shows "nested f (AList.update k v m) = AList.update k v (nested f m)"
  using assms by (simp add: nested_def map_entry_update_other)

lemma stripUnsupported_update_other:
  assumes "k \<notin> {''$ref'', ''type'', ''format'', ''nullable'', ''anyOf'', ''oneOf'', ''not''}"
  shows "stripUnsupported (AList.update k v m) = AList.update k v (stripUnsupported m)"
proof -
  have "has_key (AList.update k v m) ''$ref'' = has_key m ''$ref''"
    using assms by (auto simp: has_key_def update_conv')
  then show ?thesis
    using assms by (simp add: stripUnsupported_def Let_def delete_update)
qed

lemma sanitize_update_other:
  assumes "k \<notin> {''$ref'', ''type'', ''format'', ''nullable'', ''anyOf'', ''oneOf'', ''not'',
                 ''properties'', ''items'', ''additionalProperties'', ''allOf''}"
  shows "sanitizeForOpenAPIV2 (AList.update k v m) = AList.update k v (sanitizeForOpenAPIV2 m)"
  using assms
  by (simp add: sanitize_unfold [of "AList.update k v m"] sanitize_unfold [of m]
      stripUnsupported_update_other nested_update_other)

lemma definitionFor_sanitizes:
  "definitionFor fuel lib root crdTypeSet gv Schemata pkgByPath entry =
     (case definitionFor_unsanitized fuel lib root crdTypeSet gv Schemata pkgByPath entry of
        None \<Rightarrow> None
      | Some (Inl err) \<Rightarrow> Some (Inl err)
      | Some (Inr (key, schemaMap)) \<Rightarrow> Some (Inr (key, sanitizeForOpenAPIV2 schemaMap)))"
  by (cases entry)
     (auto simp: definitionFor_def definitionFor_unsanitized_def Let_def sanitize_update_other
        split: option.splits sum.splits)

lemma sanitizeDefinitions_update:
  "sanitizeDefinitions (AList.update key (JObject m) definitions) =
     AList.update key (JObject (sanitizeForOpenAPIV2 m)) (sanitizeDefinitions definitions)"
  by (induction definitions) (auto simp: sanitizeDefinitions_def onObject_def)

lemma assemble_sanitizes:
  assumes "\<And>entry. body entry =
     (case raw entry of
        None \<Rightarrow> None
      | Some (Inl err) \<Rightarrow> Some (Inl err)
      | Some (Inr (key, schemaMap)) \<Rightarrow> Some (Inr (key, sanitizeForOpenAPIV2 schemaMap)))"
  shows "assemble body entries (sanitizeDefinitions definitions) =
     (case assemble raw entries definitions of
        None \<Rightarrow> None
      | Some (Inl err) \<Rightarrow> Some (Inl err)
      | Some (Inr definitions') \<Rightarrow> Some (Inr (sanitizeDefinitions definitions')))"
proof (induction entries arbitrary: definitions)
  case Nil
  then show ?case by simp
next
  case (Cons entry entries)
  show ?case
  proof (cases "raw entry")
    case None
    then show ?thesis by (simp add: assms)
  next
    case (Some r)
    show ?thesis
    proof (cases r)
      case (Inl err)
      then show ?thesis using Some by (simp add: assms)
    next
      case (Inr d)
      obtain key schemaMap where d: "d = (key, schemaMap)" by (cases d)
      show ?thesis
        using Some Inr d Cons.IH [of "AList.update key (JObject schemaMap) definitions"]
        by (simp add: assms sanitizeDefinitions_update)
    qed
  qed
qed

section \<open>Properties of the Ref Format Converter and the AllOf Ref Resolver\<close>

lemma allRefs_convertRefs:
  "allRefs (convertRefs lib contextPkg s) = map (convertRef lib contextPkg) (allRefs s)"
proof (induction lib contextPkg s rule: convertRefs.induct)
  case (1 lib contextPkg ref ty fmt nullable props items addProps allOf oneOf anyOf nt xmap)
  have p: "concat (map (\<lambda>(k, v). allRefs v) (map (\<lambda>(k, v). (k, convertRefs lib contextPkg v)) props))
         = map (convertRef lib contextPkg) (concat (map (\<lambda>(k, v). allRefs v) props))"
  proof -
    have "map (\<lambda>(k, v). allRefs v) (map (\<lambda>(k, v). (k, convertRefs lib contextPkg v)) props)
        = map (\<lambda>(k, v). map (convertRef lib contextPkg) (allRefs v)) props"
      using "1.IH"(1) by auto
    then have "concat (map (\<lambda>(k, v). allRefs v)
                   (map (\<lambda>(k, v). (k, convertRefs lib contextPkg v)) props))
        = concat (map (\<lambda>(k, v). map (convertRef lib contextPkg) (allRefs v)) props)"
      by (simp only:)
    also have "\<dots> = map (convertRef lib contextPkg) (concat (map (\<lambda>(k, v). allRefs v) props))"
      by (induction props) auto
    finally show ?thesis .
  qed
  have a: "concat (map allRefs (map (convertRefs lib contextPkg) allOf))
         = map (convertRef lib contextPkg) (concat (map allRefs allOf))"
  proof -
    have "map allRefs (map (convertRefs lib contextPkg) allOf)
        = map (\<lambda>v. map (convertRef lib contextPkg) (allRefs v)) allOf"
      using "1.IH"(4) by auto
    then have "concat (map allRefs (map (convertRefs lib contextPkg) allOf))
        = concat (map (\<lambda>v. map (convertRef lib contextPkg) (allRefs v)) allOf)"
      by (simp only:)
    also have "\<dots> = map (convertRef lib contextPkg) (concat (map allRefs allOf))"
      by (induction allOf) auto
    finally show ?thesis .
  qed
  have i: "(case (case items of
          Some (JSONSchemaPropsOrArray (Some s) arr) \<Rightarrow>
            Some (JSONSchemaPropsOrArray (Some (convertRefs lib contextPkg s)) arr)
        | _ \<Rightarrow> items) of Some (JSONSchemaPropsOrArray (Some s) arr) \<Rightarrow> allRefs s | _ \<Rightarrow> [])
      = map (convertRef lib contextPkg)
          (case items of Some (JSONSchemaPropsOrArray (Some s) arr) \<Rightarrow> allRefs s | _ \<Rightarrow> [])"
    using "1.IH"(2) by (auto split: option.splits JSONSchemaPropsOrArray.splits)
  have b: "(case (case addProps of
          Some (JSONSchemaPropsOrBool allows (Some s)) \<Rightarrow>
            Some (JSONSchemaPropsOrBool allows (Some (convertRefs lib contextPkg s)))
        | _ \<Rightarrow> addProps) of Some (JSONSchemaPropsOrBool allows (Some s)) \<Rightarrow> allRefs s | _ \<Rightarrow> [])
      = map (convertRef lib contextPkg)
          (case addProps of Some (JSONSchemaPropsOrBool allows (Some s)) \<Rightarrow> allRefs s | _ \<Rightarrow> [])"
    using "1.IH"(3) by (auto split: option.splits JSONSchemaPropsOrBool.splits)
  show ?case
    by (simp only: convertRefs.simps allRefs.simps p a i b map_append list.map)
qed

lemma andThen_Inr:
  "andThen r f = Some (Inr y) \<longleftrightarrow> (\<exists>x. r = Some (Inr x) \<and> f x = Some (Inr y))"
  by (auto simp: andThen_def split: option.splits sum.splits)

lemma forEach_Inr:
  "forEach f xs = Some (Inr ys) \<longleftrightarrow> list_all2 (\<lambda>x y. f x = Some (Inr y)) xs ys"
proof (induction xs arbitrary: ys)
  case Nil
  then show ?case by auto
next
  case (Cons x xs)
  show ?case
    by (auto simp: andThen_Inr Cons.IH list_all2_Cons1)
qed

lemma resolveAllOfRefs_Inr:
  assumes "resolveAllOfRefs (Suc fuel) lib Schemata pkgByPath contextPkg
             (JSONSchemaProps ref ty fmt nullable props items addProps allOf oneOf anyOf nt xmap)
           = Some (Inr schema')"
  obtains allOf' props' items' addProps' where
    "schema' = JSONSchemaProps ref ty fmt nullable props' items' addProps' allOf' oneOf anyOf nt xmap"
    "list_all2 (entryResolved fuel lib Schemata pkgByPath contextPkg) allOf allOf'"
    "list_all2 (\<lambda>(k, v) (k', v'). k' = k
        \<and> resolveAllOfRefs fuel lib Schemata pkgByPath contextPkg v = Some (Inr v')) props props'"
    "case items of
       Some (JSONSchemaPropsOrArray (Some s) arr) \<Rightarrow>
         \<exists>s'. resolveAllOfRefs fuel lib Schemata pkgByPath contextPkg s = Some (Inr s')
              \<and> items' = Some (JSONSchemaPropsOrArray (Some s') arr)
     | _ \<Rightarrow> items' = items"
    "case addProps of
       Some (JSONSchemaPropsOrBool allows (Some s)) \<Rightarrow>
         \<exists>s'. resolveAllOfRefs fuel lib Schemata pkgByPath contextPkg s = Some (Inr s')
              \<and> addProps' = Some (JSONSchemaPropsOrBool allows (Some s'))
     | _ \<Rightarrow> addProps' = addProps"
proof -
  from assms obtain allOf' props' items' addProps' where
    s: "schema' = JSONSchemaProps ref ty fmt nullable props' items' addProps' allOf' oneOf anyOf nt xmap"
    and a: "forEach (\<lambda>entry.
          if hasRef entry then
            (case lookupRef lib Schemata pkgByPath contextPkg (the (Ref entry)) of
               Inl err \<Rightarrow> Some (Inl err)
             | Inr (pkg, refSchema) \<Rightarrow>
                 resolveAllOfRefs fuel lib Schemata pkgByPath (Some pkg) refSchema)
          else resolveAllOfRefs fuel lib Schemata pkgByPath contextPkg entry) allOf = Some (Inr allOf')"
    and p: "forEach (\<lambda>(k, v).
             andThen (resolveAllOfRefs fuel lib Schemata pkgByPath contextPkg v)
               (\<lambda>v'. Some (Inr (k, v')))) props = Some (Inr props')"
    and i: "(case items of
             Some (JSONSchemaPropsOrArray (Some s) arr) \<Rightarrow>
               andThen (resolveAllOfRefs fuel lib Schemata pkgByPath contextPkg s)
                 (\<lambda>s'. Some (Inr (Some (JSONSchemaPropsOrArray (Some s') arr))))
           | _ \<Rightarrow> Some (Inr items)) = Some (Inr items')"
    and b: "(case addProps of
             Some (JSONSchemaPropsOrBool allows (Some s)) \<Rightarrow>
               andThen (resolveAllOfRefs fuel lib Schemata pkgByPath contextPkg s)
                 (\<lambda>s'. Some (Inr (Some (JSONSchemaPropsOrBool allows (Some s')))))
           | _ \<Rightarrow> Some (Inr addProps)) = Some (Inr addProps')"
    by (auto simp: andThen_Inr)
  have 1: "list_all2 (entryResolved fuel lib Schemata pkgByPath contextPkg) allOf allOf'"
    using a unfolding forEach_Inr
    by (rule list_all2_mono) (auto simp: entryResolved_def split: sum.splits if_splits)
  have 2: "list_all2 (\<lambda>(k, v) (k', v'). k' = k
        \<and> resolveAllOfRefs fuel lib Schemata pkgByPath contextPkg v = Some (Inr v')) props props'"
    using p unfolding forEach_Inr
    by (rule list_all2_mono) (auto simp: andThen_Inr)
  have 3: "case items of
       Some (JSONSchemaPropsOrArray (Some s) arr) \<Rightarrow>
         \<exists>s'. resolveAllOfRefs fuel lib Schemata pkgByPath contextPkg s = Some (Inr s')
              \<and> items' = Some (JSONSchemaPropsOrArray (Some s') arr)
     | _ \<Rightarrow> items' = items"
    using i by (auto simp: andThen_Inr split: option.splits JSONSchemaPropsOrArray.splits)
  have 4: "case addProps of
       Some (JSONSchemaPropsOrBool allows (Some s)) \<Rightarrow>
         \<exists>s'. resolveAllOfRefs fuel lib Schemata pkgByPath contextPkg s = Some (Inr s')
              \<and> addProps' = Some (JSONSchemaPropsOrBool allows (Some s'))
     | _ \<Rightarrow> addProps' = addProps"
    using b by (auto simp: andThen_Inr split: option.splits JSONSchemaPropsOrBool.splits)
  from that [OF s 1 2 3 4] show thesis .
qed


lemma resolveAllOfRefs_outside:
  "resolveAllOfRefs fuel lib Schemata pkgByPath contextPkg schema = Some (Inr schema')
     \<Longrightarrow> withoutAllOf schema' = withoutAllOf schema \<and> outerRefs schema' = outerRefs schema"
proof (induction fuel arbitrary: contextPkg schema schema')
  case 0
  then show ?case by simp
next
  case (Suc fuel)
  obtain ref ty fmt nullable props items addProps allOf oneOf anyOf nt xmap where
    s: "schema = JSONSchemaProps ref ty fmt nullable props items addProps allOf oneOf anyOf nt xmap"
    by (cases schema)
  from Suc.prems [unfolded s] obtain allOf' props' items' addProps' where
    s': "schema' = JSONSchemaProps ref ty fmt nullable props' items' addProps' allOf' oneOf anyOf nt xmap"
    and p: "list_all2 (\<lambda>(k, v) (k', v'). k' = k
        \<and> resolveAllOfRefs fuel lib Schemata pkgByPath contextPkg v = Some (Inr v')) props props'"
    and i: "case items of
       Some (JSONSchemaPropsOrArray (Some s) arr) \<Rightarrow>
         \<exists>s'. resolveAllOfRefs fuel lib Schemata pkgByPath contextPkg s = Some (Inr s')
              \<and> items' = Some (JSONSchemaPropsOrArray (Some s') arr)
     | _ \<Rightarrow> items' = items"
    and b: "case addProps of
       Some (JSONSchemaPropsOrBool allows (Some s)) \<Rightarrow>
         \<exists>s'. resolveAllOfRefs fuel lib Schemata pkgByPath contextPkg s = Some (Inr s')
              \<and> addProps' = Some (JSONSchemaPropsOrBool allows (Some s'))
     | _ \<Rightarrow> addProps' = addProps"
    by (rule resolveAllOfRefs_Inr)
  have pr: "list_all2 (\<lambda>(k, v) (k', v'). k' = k \<and> withoutAllOf v' = withoutAllOf v
              \<and> outerRefs v' = outerRefs v) props props'"
    using p by (rule list_all2_mono) (auto dest: Suc.IH)
  have p1: "map (\<lambda>(k, v). (k, withoutAllOf v)) props' = map (\<lambda>(k, v). (k, withoutAllOf v)) props"
    using pr by (induction props props' rule: list_all2_induct) auto
  have p2: "concat (map (\<lambda>(k, v). outerRefs v) props') = concat (map (\<lambda>(k, v). outerRefs v) props)"
    using pr by (induction props props' rule: list_all2_induct) auto
  have i1: "(case items' of
          Some (JSONSchemaPropsOrArray (Some s) arr) \<Rightarrow>
            Some (JSONSchemaPropsOrArray (Some (withoutAllOf s)) arr)
        | _ \<Rightarrow> items') = (case items of
          Some (JSONSchemaPropsOrArray (Some s) arr) \<Rightarrow>
            Some (JSONSchemaPropsOrArray (Some (withoutAllOf s)) arr)
        | _ \<Rightarrow> items)"
    and i2: "(case items' of Some (JSONSchemaPropsOrArray (Some s) arr) \<Rightarrow> outerRefs s | _ \<Rightarrow> [])
           = (case items of Some (JSONSchemaPropsOrArray (Some s) arr) \<Rightarrow> outerRefs s | _ \<Rightarrow> [])"
    using i by (auto split: option.splits JSONSchemaPropsOrArray.splits dest: Suc.IH)
  have b1: "(case addProps' of
          Some (JSONSchemaPropsOrBool allows (Some s)) \<Rightarrow>
            Some (JSONSchemaPropsOrBool allows (Some (withoutAllOf s)))
        | _ \<Rightarrow> addProps') = (case addProps of
          Some (JSONSchemaPropsOrBool allows (Some s)) \<Rightarrow>
            Some (JSONSchemaPropsOrBool allows (Some (withoutAllOf s)))
        | _ \<Rightarrow> addProps)"
    and b2: "(case addProps' of Some (JSONSchemaPropsOrBool allows (Some s)) \<Rightarrow> outerRefs s | _ \<Rightarrow> [])
           = (case addProps of Some (JSONSchemaPropsOrBool allows (Some s)) \<Rightarrow> outerRefs s | _ \<Rightarrow> [])"
    using b by (auto split: option.splits JSONSchemaPropsOrBool.splits dest: Suc.IH)
  show ?case
    unfolding s s' by (simp only: withoutAllOf.simps outerRefs.simps p1 p2 i1 i2 b1 b2 simp_thms)
qed

lemma resolveAllOfRefs_Ref:
  "resolveAllOfRefs fuel lib Schemata pkgByPath contextPkg schema = Some (Inr schema')
     \<Longrightarrow> Ref schema' = Ref schema"
proof -
  assume "resolveAllOfRefs fuel lib Schemata pkgByPath contextPkg schema = Some (Inr schema')"
  then have "withoutAllOf schema' = withoutAllOf schema"
    by (simp add: resolveAllOfRefs_outside)
  moreover have "Ref (withoutAllOf s) = Ref s" for s
    by (cases s) simp
  ultimately show ?thesis by metis
qed

lemma lookupRef_in_Schemata:
  "lookupRef lib Schemata pkgByPath contextPkg r = Inr (pkg, refSchema)
     \<Longrightarrow> \<exists>ident. (ident, refSchema) \<in> set Schemata"
  by (auto simp: lookupRef_def split: option.splits prod.splits dest: map_of_SomeD)

lemma resolveAllOfRefs_resolved:
  assumes "list_all (\<lambda>(ident, s). \<not> hasRef s) Schemata"
  shows "resolveAllOfRefs fuel lib Schemata pkgByPath contextPkg schema = Some (Inr schema')
     \<Longrightarrow> allOfResolved schema'"
proof (induction fuel arbitrary: contextPkg schema schema')
  case 0
  then show ?case by simp
next
  case (Suc fuel)
  obtain ref ty fmt nullable props items addProps allOf oneOf anyOf nt xmap where
    s: "schema = JSONSchemaProps ref ty fmt nullable props items addProps allOf oneOf anyOf nt xmap"
    by (cases schema)
  from Suc.prems [unfolded s] obtain allOf' props' items' addProps' where
    s': "schema' = JSONSchemaProps ref ty fmt nullable props' items' addProps' allOf' oneOf anyOf nt xmap"
    and a: "list_all2 (entryResolved fuel lib Schemata pkgByPath contextPkg) allOf allOf'"
    and p: "list_all2 (\<lambda>(k, v) (k', v'). k' = k
        \<and> resolveAllOfRefs fuel lib Schemata pkgByPath contextPkg v = Some (Inr v')) props props'"
    and i: "case items of
       Some (JSONSchemaPropsOrArray (Some s) arr) \<Rightarrow>
         \<exists>s'. resolveAllOfRefs fuel lib Schemata pkgByPath contextPkg s = Some (Inr s')
              \<and> items' = Some (JSONSchemaPropsOrArray (Some s') arr)
     | _ \<Rightarrow> items' = items"
    and b: "case addProps of
       Some (JSONSchemaPropsOrBool allows (Some s)) \<Rightarrow>
         \<exists>s'. resolveAllOfRefs fuel lib Schemata pkgByPath contextPkg s = Some (Inr s')
              \<and> addProps' = Some (JSONSchemaPropsOrBool allows (Some s'))
     | _ \<Rightarrow> addProps' = addProps"
    by (rule resolveAllOfRefs_Inr)
  have e: "\<not> hasRef entry' \<and> allOfResolved entry'"
    if "entryResolved fuel lib Schemata pkgByPath contextPkg entry entry'" for entry entry'
  proof (cases "hasRef entry")
    case True
    with that obtain pkg refSchema where
      l: "lookupRef lib Schemata pkgByPath contextPkg (the (Ref entry)) = Inr (pkg, refSchema)"
      and r: "resolveAllOfRefs fuel lib Schemata pkgByPath (Some pkg) refSchema = Some (Inr entry')"
      by (auto simp: entryResolved_def)
    from lookupRef_in_Schemata [OF l] assms have "\<not> hasRef refSchema"
      by (auto simp: list_all_iff)
    with resolveAllOfRefs_Ref [OF r] Suc.IH [OF r] show ?thesis
      by (simp add: hasRef_def)
  next
    case False
    with that have r: "resolveAllOfRefs fuel lib Schemata pkgByPath contextPkg entry = Some (Inr entry')"
      by (simp add: entryResolved_def)
    with resolveAllOfRefs_Ref [OF r] Suc.IH [OF r] False show ?thesis
      by (simp add: hasRef_def)
  qed
  have 1: "list_all (\<lambda>entry. \<not> hasRef entry \<and> allOfResolved entry) allOf'"
    using a e by (induction allOf allOf' rule: list_all2_induct) auto
  have 2: "list_all (\<lambda>(k, v). allOfResolved v) props'"
    using p by (induction props props' rule: list_all2_induct) (auto dest: Suc.IH)
  have 3: "case items' of
            Some (JSONSchemaPropsOrArray (Some s) arr) \<Rightarrow> allOfResolved s | _ \<Rightarrow> True"
    using i by (auto split: option.splits JSONSchemaPropsOrArray.splits dest: Suc.IH)
  have 4: "case addProps' of
            Some (JSONSchemaPropsOrBool allows (Some s)) \<Rightarrow> allOfResolved s | _ \<Rightarrow> True"
    using b by (auto split: option.splits JSONSchemaPropsOrBool.splits dest: Suc.IH)
  show ?case
    unfolding s' using 1 2 3 4 by simp
qed

lemma resolveAllOfRefs_property_names:
  assumes "resolveAllOfRefs fuel lib Schemata pkgByPath contextPkg schema = Some (Inr schema')"
  shows "map fst (Properties schema') = map fst (Properties schema)"
proof -
  have "map fst (Properties (withoutAllOf s)) = map fst (Properties s)" for s
    by (cases s) (simp add: comp_def split_def)
  with resolveAllOfRefs_outside [OF assms] show ?thesis by metis
qed

subsection \<open>Fuel\<close>

text \<open>
  Fuel bounds the depth of the calls and nothing else: once a call has an outcome, error or
  value, it has the same outcome with any more fuel. \<open>settled a b\<close> says that \<open>b\<close> is \<open>a\<close>
  unless \<open>a\<close> ran out of fuel.
\<close>

definition settled :: "'a option \<Rightarrow> 'a option \<Rightarrow> bool" where
  "settled a b = (a = None \<or> b = a)"

lemma settled_refl: "settled a a"
  by (simp add: settled_def)

lemma settled_andThen:
  "settled r r' \<Longrightarrow> (\<And>x. settled (f x) (g x)) \<Longrightarrow> settled (andThen r f) (andThen r' g)"
  by (auto simp: settled_def andThen_def split: option.splits sum.splits)

lemma settled_forEach:
  "(\<And>x. x \<in> set xs \<Longrightarrow> settled (f x) (g x)) \<Longrightarrow> settled (forEach f xs) (forEach g xs)"
proof (induction xs)
  case Nil
  then show ?case by (simp add: settled_def)
next
  case (Cons x xs)
  have "settled (f x) (g x)" and "settled (forEach f xs) (forEach g xs)"
    using Cons by simp_all
  then show ?case
    by (auto intro!: settled_andThen settled_refl)
qed

lemma resolveAllOfRefs_settled:
  "settled (resolveAllOfRefs fuel lib Schemata pkgByPath contextPkg schema)
           (resolveAllOfRefs (Suc fuel) lib Schemata pkgByPath contextPkg schema)"
proof (induction fuel arbitrary: contextPkg schema)
  case 0
  then show ?case by (simp add: settled_def)
next
  case (Suc fuel)
  obtain ref ty fmt nullable props items addProps allOf oneOf anyOf nt xmap where
    s: "schema = JSONSchemaProps ref ty fmt nullable props items addProps allOf oneOf anyOf nt xmap"
    by (cases schema)
  show ?case
    unfolding s resolveAllOfRefs.simps
    by (intro settled_andThen settled_forEach)
       (auto split: sum.splits prod.splits option.splits JSONSchemaPropsOrArray.splits
          JSONSchemaPropsOrBool.splits intro!: Suc.IH settled_refl settled_andThen)
qed

lemma resolveAllOfRefs_more_fuel:
  "resolveAllOfRefs fuel lib Schemata pkgByPath contextPkg schema = Some r
     \<Longrightarrow> resolveAllOfRefs (fuel + extra) lib Schemata pkgByPath contextPkg schema = Some r"
proof (induction extra)
  case 0
  then show ?case by simp
next
  case (Suc extra)
  with resolveAllOfRefs_settled [of "fuel + extra" lib Schemata pkgByPath contextPkg schema]
  show ?case by (simp add: settled_def)
qed

section \<open>The claims\<close>

text \<open>
  Claim C1, as stated, fails on the code. The loop assigns \<^verbatim>\<open>definitions[key] = schemaMap\<close>
  without looking the key up first, and no error of the function is about keys. Two
  distinct identifiers, \<^verbatim>\<open>example.com/a/b.T\<close> and \<^verbatim>\<open>example.com/a.b.T\<close>, have the key
  \<^verbatim>\<open>com.example.a.b.T\<close>; the definitions are built, and hold the second type only: the
  first, a root type, is gone.
\<close>

theorem key_collision_not_detected:
  "TypeIdent (Some (Pkg ''example.com/a/b'')) ''T'' \<noteq> TypeIdent (Some (Pkg ''example.com/a.b'')) ''T''
   \<and> definitionKey library_model (TypeIdent (Some (Pkg ''example.com/a/b'')) ''T'')
     = definitionKey library_model (TypeIdent (Some (Pkg ''example.com/a.b'')) ''T'')
   \<and> buildDefinitions 2 library_model (Pkg ''example.com/a/b'') {''T''}
       \<lparr>Group = ''example.com'', Version = ''v1''\<rparr>
       [(TypeIdent (Some (Pkg ''example.com/a/b'')) ''T'', typed ''string''),
        (TypeIdent (Some (Pkg ''example.com/a.b'')) ''T'', typed ''integer'')]
       [''com.example.a.b.T'']
     = Some (Inr [(''com.example.a.b.T'', JObject [(''type'', JString ''integer'')])])"
  by code_simp

text \<open>
  Claim C1, amended. Assembly does not detect key collisions. When every type is
  processed without error the loop succeeds, whatever the keys; and the map holds, at the
  key of a type, the definition of that type whenever no type processed after it has
  the same key. Of several types with one key the last one processed stays, the others
  are overwritten.
\<close>

theorem colliding_definition_overwritten:
  assumes "entries = before @ (ident, s) # after"
    and "list_all (\<lambda>e. \<exists>d. definitionFor fuel lib root crdTypeSet gv Schemata pkgByPath e
                           = Some (Inr d)) entries"
    and "list_all (\<lambda>(ident', s'). definitionKey lib ident' \<noteq> definitionKey lib ident) after"
  shows "\<exists>definitions schemaMap.
           assemble (definitionFor fuel lib root crdTypeSet gv Schemata pkgByPath) entries []
             = Some (Inr definitions)
         \<and> definitionFor fuel lib root crdTypeSet gv Schemata pkgByPath (ident, s)
             = Some (Inr (definitionKey lib ident, schemaMap))
         \<and> map_of definitions (definitionKey lib ident) = Some (JObject schemaMap)"
proof -
  let ?body = "definitionFor fuel lib root crdTypeSet gv Schemata pkgByPath"
  from assms(1,2) have b: "list_all (\<lambda>e. \<exists>d. ?body e = Some (Inr d)) before"
    and a: "list_all (\<lambda>e. \<exists>d. ?body e = Some (Inr d)) after"
    and "\<exists>d. ?body (ident, s) = Some (Inr d)"
    by auto
  then obtain k schemaMap where "?body (ident, s) = Some (Inr (k, schemaMap))"
    by fastforce
  with definitionFor_key have here: "?body (ident, s) = Some (Inr (definitionKey lib ident, schemaMap))"
    by fastforce
  have "list_all (\<lambda>e. \<exists>k m. ?body e = Some (Inr (k, m)) \<and> k \<noteq> definitionKey lib ident) after"
    unfolding list_all_iff
  proof
    fix e assume e: "e \<in> set after"
    obtain ident' s' where p: "e = (ident', s')" by (cases e)
    from a e p obtain k m where d: "?body (ident', s') = Some (Inr (k, m))"
      by (fastforce simp: list_all_iff)
    from definitionFor_key [OF d] have "k = definitionKey lib ident'" .
    moreover from assms(3) e p have "definitionKey lib ident' \<noteq> definitionKey lib ident"
      by (auto simp: list_all_iff)
    ultimately show "\<exists>k m. ?body e = Some (Inr (k, m)) \<and> k \<noteq> definitionKey lib ident"
      using d p by auto
  qed
  from assemble_last_assignment [OF b here this, of "[]"] here show ?thesis
    unfolding assms(1) by blast
qed

theorem colliding_definition_overwritten_witness:
  "\<exists>definitions.
     assemble (definitionFor 2 library_model (Pkg ''example.com/a/b'') {''T''}
                 \<lparr>Group = ''example.com'', Version = ''v1''\<rparr>
                 [(TypeIdent (Some (Pkg ''example.com/a/b'')) ''T'', typed ''string''),
                  (TypeIdent (Some (Pkg ''example.com/a.b'')) ''T'', typed ''integer'')]
                 [(''example.com/a/b'', Pkg ''example.com/a/b''),
                  (''example.com/a.b'', Pkg ''example.com/a.b'')])
       [(TypeIdent (Some (Pkg ''example.com/a/b'')) ''T'', typed ''string''),
        (TypeIdent (Some (Pkg ''example.com/a.b'')) ''T'', typed ''integer'')] []
       = Some (Inr definitions)
     \<and> map_of definitions ''com.example.a.b.T'' = Some (JObject [(''type'', JString ''integer'')])"
proof -
  let ?A = "(TypeIdent (Some (Pkg ''example.com/a/b'')) ''T'', typed ''string'')"
  let ?B = "(TypeIdent (Some (Pkg ''example.com/a.b'')) ''T'', typed ''integer'')"
  let ?body = "definitionFor 2 library_model (Pkg ''example.com/a/b'') {''T''}
                 \<lparr>Group = ''example.com'', Version = ''v1''\<rparr> [?A, ?B]
                 [(''example.com/a/b'', Pkg ''example.com/a/b''),
                  (''example.com/a.b'', Pkg ''example.com/a.b'')]"
  have 1: "[?A, ?B] = [?A] @ ?B # []" by simp
  have 2: "list_all (\<lambda>e. \<exists>d. ?body e = Some (Inr d)) [?A, ?B]"
  proof -
    have "?body ?A = Some (Inr (''com.example.a.b.T'',
            [(''type'', JString ''string''),
             (''x-kubernetes-group-version-kind'',
              JArray [JObject [(''group'', JString ''example.com''),
                               (''version'', JString ''v1''), (''kind'', JString ''T'')]])]))"
      by code_simp
    moreover have "?body ?B = Some (Inr (''com.example.a.b.T'', [(''type'', JString ''integer'')]))"
      by code_simp
    ultimately show ?thesis by simp
  qed
  have 3: "list_all (\<lambda>(ident', s'). definitionKey library_model ident'
              \<noteq> definitionKey library_model (TypeIdent (Some (Pkg ''example.com/a.b'')) ''T'')) []"
    by simp
  have k: "definitionKey library_model (TypeIdent (Some (Pkg ''example.com/a.b'')) ''T'')
             = ''com.example.a.b.T''"
    by code_simp
  have b: "?body ?B = Some (Inr (''com.example.a.b.T'', [(''type'', JString ''integer'')]))"
    by code_simp
  from colliding_definition_overwritten [OF 1 2 3] show ?thesis
    unfolding k b by auto
qed

text \<open>
  Claim C2, as stated, fails on the code. \<^verbatim>\<open>sanitizeForOpenAPIV2\<close> is called inside the loop,
  on each definition before it is assigned, and \<^verbatim>\<open>resolveRefDefinitions\<close> runs after the
  loop: the Alias Resolver is last. The two orders give different documents. \<^verbatim>\<open>Widget\<close> is the
  root type; \<^verbatim>\<open>Foo\<close> is an alias of the object \<^verbatim>\<open>Bar\<close> whose schema carries \<^verbatim>\<open>type: string\<close>
  beside the reference. In the code the sanitizer deletes the alias's \<^verbatim>\<open>type\<close> first, as it
  stands beside a \<^verbatim>\<open>$ref\<close>, and the definition of \<^verbatim>\<open>Foo\<close> ends as a copy of \<^verbatim>\<open>Bar\<close>; with the
  sanitizer last, the alias's \<^verbatim>\<open>type\<close> overrides the copy's and stays.
\<close>

theorem sanitizer_does_not_run_last:
  "buildDefinitions 2 library_model (Pkg ''example.com/a'') {''Widget''}
     \<lparr>Group = ''example.com'', Version = ''v1''\<rparr>
     [(TypeIdent (Some (Pkg ''example.com/a'')) ''Widget'', typed ''object''),
      (TypeIdent (Some (Pkg ''example.com/a'')) ''Foo'',
       JSONSchemaProps (Some ''#/definitions/Bar'') ''string'' [] False [] None None [] [] []
         None None),
      (TypeIdent (Some (Pkg ''example.com/a'')) ''Bar'', typed ''object'')]
     [''com.example.a.Widget'', ''com.example.a.Foo'', ''com.example.a.Bar'']
   = Some (Inr [(''com.example.a.Widget'',
                 JObject [(''type'', JString ''object''),
                          (''x-kubernetes-group-version-kind'',
                           JArray [JObject [(''group'', JString ''example.com''),
                                            (''version'', JString ''v1''),
                                            (''kind'', JString ''Widget'')]])]),
                (''com.example.a.Foo'', JObject [(''type'', JString ''object'')]),
                (''com.example.a.Bar'', JObject [(''type'', JString ''object'')])])
   \<and> buildDefinitions_spec 2 library_model (Pkg ''example.com/a'') {''Widget''}
     \<lparr>Group = ''example.com'', Version = ''v1''\<rparr>
     [(TypeIdent (Some (Pkg ''example.com/a'')) ''Widget'', typed ''object''),
      (TypeIdent (Some (Pkg ''example.com/a'')) ''Foo'',
       JSONSchemaProps (Some ''#/definitions/Bar'') ''string'' [] False [] None None [] [] []
         None None),
      (TypeIdent (Some (Pkg ''example.com/a'')) ''Bar'', typed ''object'')]
     [''com.example.a.Widget'', ''com.example.a.Foo'', ''com.example.a.Bar'']
   = Some (Inr [(''com.example.a.Widget'',
                 JObject [(''type'', JString ''object''),
                          (''x-kubernetes-group-version-kind'',
                           JArray [JObject [(''group'', JString ''example.com''),
                                            (''version'', JString ''v1''),
                                            (''kind'', JString ''Widget'')]])]),
                (''com.example.a.Foo'', JObject [(''type'', JString ''string'')]),
                (''com.example.a.Bar'', JObject [(''type'', JString ''object'')])])"
  by code_simp

text \<open>
  Claim C2, amended. The sanitizer runs before the Alias Resolver, which runs last: the
  definitions \<open>buildDefinitions\<close> returns are the result of the Alias Resolver on the
  assembled map in which every definition has been sanitized. Errors and running out of
  fuel are those of the assembly.
\<close>

theorem sanitized_before_alias_resolution:
  "buildDefinitions fuel lib root crdTypeSet gv Schemata order =
     (case assemble (definitionFor_unsanitized fuel lib root crdTypeSet gv Schemata
                       (buildPkgByPath Schemata)) Schemata [] of
        None \<Rightarrow> None
      | Some (Inl err) \<Rightarrow> Some (Inl err)
      | Some (Inr definitions) \<Rightarrow>
          Some (Inr (resolveRefDefinitions order (sanitizeDefinitions definitions))))"
proof -
  have "sanitizeDefinitions [] = []" by (simp add: sanitizeDefinitions_def)
  with assemble_sanitizes [of "definitionFor fuel lib root crdTypeSet gv Schemata (buildPkgByPath Schemata)"
      "definitionFor_unsanitized fuel lib root crdTypeSet gv Schemata (buildPkgByPath Schemata)"
      Schemata "[]", OF definitionFor_sanitizes]
  show ?thesis
    by (simp add: buildDefinitions_def split: option.splits sum.splits)
qed

text \<open>
  Claim C3, as stated, fails on the code. \<^verbatim>\<open>convertRefs\<close> has no error to return, and rewrites
  a reference under the guard \<^verbatim>\<open>if err == nil\<close>: when \<^verbatim>\<open>RefParts\<close> fails, the reference is left
  as it is. Here the reference \<^verbatim>\<open>FooStatus\<close> of a property does not parse; the definitions are
  built all the same, with the reference in them as it was.
\<close>

theorem unparsable_reference_not_fatal:
  "RefParts library_model ''FooStatus'' = None
   \<and> buildDefinitions 2 library_model (Pkg ''example.com/a'') {''Foo''}
       \<lparr>Group = ''example.com'', Version = ''v1''\<rparr>
       [(TypeIdent (Some (Pkg ''example.com/a'')) ''Foo'',
         object [(''status'', refTo ''FooStatus'')] [])]
       [''com.example.a.Foo'']
     = Some (Inr [(''com.example.a.Foo'',
                   JObject [(''type'', JString ''object''),
                            (''properties'',
                             JObject [(''status'', JObject [(''$ref'', JString ''FooStatus'')])]),
                            (''x-kubernetes-group-version-kind'',
                             JArray [JObject [(''group'', JString ''example.com''),
                                              (''version'', JString ''v1''),
                                              (''kind'', JString ''Foo'')]])])])"
  by code_simp

text \<open>
  Claim C3, amended. The converter rewrites every non-empty reference that parses, in the
  fragment itself and in every fragment nested through \<^verbatim>\<open>properties\<close> values, \<^verbatim>\<open>allOf\<close>
  entries, \<^verbatim>\<open>items\<close> and \<^verbatim>\<open>additionalProperties\<close>, into \<^verbatim>\<open>#/definitions/\<close> followed by the
  friendly name of the package path, a dot and the type name; the path is the context's
  when the reference has none and there is a context. It returns no error: a reference
  that does not parse is left as it is, as is an empty one. Nothing else of the walk
  changes: the references of the result are those of the argument, one for one.
\<close>

theorem references_converted_unless_unparsable:
  "list_all2
     (\<lambda>old new.
        case old of
          None \<Rightarrow> new = None
        | Some r \<Rightarrow>
            if r = [] then new = old
            else (case RefParts lib r of
                    None \<Rightarrow> new = old
                  | Some (typeName, pkgPath) \<Rightarrow>
                      new = Some (''#/definitions/'' @ ToRESTFriendlyName lib
                              ((if pkgPath = []
                                then (case contextPkg of Some pkg \<Rightarrow> PkgPath pkg | None \<Rightarrow> [])
                                else pkgPath) @ ''.'' @ typeName))))
     (allRefs schema) (allRefs (convertRefs lib contextPkg schema))"
  unfolding allRefs_convertRefs list_all2_map2
  by (rule list_all2_refl)
     (auto simp: convertRef_def Let_def split: option.splits prod.splits)

theorem references_converted_unless_unparsable_witness:
  "allRefs (convertRefs library_model (Some (Pkg ''example.com/a''))
      (JSONSchemaProps None ''object'' [] False
         [(''spec'', refTo ''#/definitions/FooSpec''),
          (''pod'', refTo ''#/definitions/k8s.io~1api~1core~1v1~0Pod''),
          (''odd'', refTo ''FooStatus'')]
         None None [] [] [] None None))
   = [None, Some ''#/definitions/com.example.a.FooSpec'',
      Some ''#/definitions/io.k8s.api.core.v1.Pod'', Some ''FooStatus'']"
proof -
  let ?s = "JSONSchemaProps None ''object'' [] False
         [(''spec'', refTo ''#/definitions/FooSpec''),
          (''pod'', refTo ''#/definitions/k8s.io~1api~1core~1v1~0Pod''),
          (''odd'', refTo ''FooStatus'')]
         None None [] [] [] None None"
  have refs: "allRefs ?s = [None, Some ''#/definitions/FooSpec'',
      Some ''#/definitions/k8s.io~1api~1core~1v1~0Pod'', Some ''FooStatus'']"
    by (simp add: refTo_def)
  have p1: "RefParts library_model ''#/definitions/FooSpec'' = Some (''FooSpec'', [])"
    and p2: "RefParts library_model ''#/definitions/k8s.io~1api~1core~1v1~0Pod''
               = Some (''Pod'', ''k8s.io/api/core/v1'')"
    and p3: "RefParts library_model ''FooStatus'' = None"
    by (simp_all add: library_model_def refParts_model_def refPrefix_def)
  have f1: "ToRESTFriendlyName library_model ''example.com/a.FooSpec'' = ''com.example.a.FooSpec''"
    and f2: "ToRESTFriendlyName library_model ''k8s.io/api/core/v1.Pod'' = ''io.k8s.api.core.v1.Pod''"
    by (simp_all add: library_model_def toRESTFriendlyName_model_def)
  from references_converted_unless_unparsable
         [of library_model "Some (Pkg ''example.com/a'')" ?s]
  show ?thesis
    unfolding refs by (auto simp: list_all2_Cons1 p1 p2 p3 f1 f2)
qed

text \<open>
  Claim C4 states what the resolver is written to do: by its comment it replaces the
  references inside \<^verbatim>\<open>AllOf\<close> by the schemas referred to, so that the entries are ready for
  \<^verbatim>\<open>FlattenEmbedded\<close> to merge their properties. The code misses one case. An entry with a
  reference becomes the resolved copy of the schema referred to, and resolving a schema
  walks its \<^verbatim>\<open>AllOf\<close> but never looks at its own \<^verbatim>\<open>Ref\<close>. For the Go types
  \<^verbatim>\<open>type C struct { c string }\<close>, \<^verbatim>\<open>type B C\<close> and \<^verbatim>\<open>type A struct { a string; B }\<close>, the schema
  of the alias \<^verbatim>\<open>B\<close> is a reference to \<^verbatim>\<open>C\<close> and nothing else, as the comment on
  \<^verbatim>\<open>resolveRefDefinitions\<close> describes. Resolving \<^verbatim>\<open>A\<close> succeeds, and the entry that embedded \<^verbatim>\<open>B\<close>
  is then the reference to \<^verbatim>\<open>C\<close>: an \<^verbatim>\<open>allOf\<close> entry still carries a bare reference, and the
  property \<^verbatim>\<open>c\<close> declared on \<^verbatim>\<open>C\<close> is nowhere in the result.
\<close>

theorem embedded_alias_left_as_reference:
  "resolveAllOfRefs 3 library_model
     [(TypeIdent (Some (Pkg ''example.com/a'')) ''A'',
       object [(''a'', typed ''string'')] [refTo ''#/definitions/B'']),
      (TypeIdent (Some (Pkg ''example.com/a'')) ''B'', refTo ''#/definitions/C''),
      (TypeIdent (Some (Pkg ''example.com/a'')) ''C'', object [(''c'', typed ''string'')] [])]
     [(''example.com/a'', Pkg ''example.com/a'')] (Some (Pkg ''example.com/a''))
     (object [(''a'', typed ''string'')] [refTo ''#/definitions/B''])
   = Some (Inr (object [(''a'', typed ''string'')] [refTo ''#/definitions/C'']))
   \<and> hasRef (refTo ''#/definitions/C'')
   \<and> \<not> allOfResolved (object [(''a'', typed ''string'')] [refTo ''#/definitions/C''])"
  by code_simp

text \<open>
  The same chain with \<^verbatim>\<open>B\<close> a struct of its own that embeds \<^verbatim>\<open>C\<close> is resolved as the claim
  says: no reference is left, and the properties of \<^verbatim>\<open>B\<close> and of \<^verbatim>\<open>C\<close> are in the result.
\<close>

lemma embedding_chain_of_structs_resolved:
  "resolveAllOfRefs 4 library_model
     [(TypeIdent (Some (Pkg ''example.com/a'')) ''A'',
       object [(''a'', typed ''string'')] [refTo ''#/definitions/B'']),
      (TypeIdent (Some (Pkg ''example.com/a'')) ''B'',
       object [(''b'', typed ''integer'')] [refTo ''#/definitions/C'']),
      (TypeIdent (Some (Pkg ''example.com/a'')) ''C'', object [(''c'', typed ''boolean'')] [])]
     [(''example.com/a'', Pkg ''example.com/a'')] (Some (Pkg ''example.com/a''))
     (object [(''a'', typed ''string'')] [refTo ''#/definitions/B''])
   = Some (Inr (object [(''a'', typed ''string'')]
                  [object [(''b'', typed ''integer'')] [object [(''c'', typed ''boolean'')] []]]))
   \<and> allOfResolved (object [(''a'', typed ''string'')]
                  [object [(''b'', typed ''integer'')] [object [(''c'', typed ''boolean'')] []]])"
  by code_simp

text \<open>
  Claim C5. Sanitization is idempotent: for every JSON schema map \<open>D\<close>, sanitizing the
  sanitized map gives the sanitized map again. The equality is of the maps as written,
  entry by entry, which is more than equality of their lookups.
\<close>

theorem sanitize_idempotent:
  "sanitizeForOpenAPIV2 (sanitizeForOpenAPIV2 D) = sanitizeForOpenAPIV2 D"
proof (induction D rule: sanitizeForOpenAPIV2.induct)
  case (1 schema)
  let ?s = "stripUnsupported schema"
  let ?S = sanitizeForOpenAPIV2
  have sub: "jsize m < jsize schema" if "map_of ?s k = Some (JObject m)" for k m
    using size_map_of [OF that] size_stripUnsupported [of schema] by simp
  have sub2: "jsize m < jsize schema"
    if "map_of ?s k = Some (JObject props)" "(k', JObject m) \<in> set props" for k k' props m
    using sub [OF that(1)] size_elem [OF that(2)] by simp
  have sub3: "jsize m < jsize schema"
    if "map_of ?s k = Some (JArray xs)" "JObject m \<in> set xs" for k xs m
    using size_map_of [OF that(1)] size_elem2 [OF that(2)] size_stripUnsupported [of schema]
    by simp
  have fixd: "stripUnsupported (nested ?S ?s) = nested ?S ?s"
    by (rule stripUnsupported_fixed) (simp add: nested_keys)
  have "nested ?S (nested ?S ?s) = nested ?S ?s"
  proof (rule nested_idem)
    fix v assume "map_of ?s ''properties'' = Some v"
    then show "onValues ?S (onValues ?S v) = onValues ?S v"
      by (intro onValues_idem "1.IH") (auto dest: sub2)
  next
    fix v assume "map_of ?s ''items'' = Some v"
    then show "onObject ?S (onObject ?S v) = onObject ?S v"
      by (intro onObject_idem "1.IH") (auto dest: sub)
  next
    fix v assume "map_of ?s ''additionalProperties'' = Some v"
    then show "onObject ?S (onObject ?S v) = onObject ?S v"
      by (intro onObject_idem "1.IH") (auto dest: sub)
  next
    fix v assume "map_of ?s ''allOf'' = Some v"
    then show "onElems ?S (onElems ?S v) = onElems ?S v"
      by (intro onElems_idem "1.IH") (auto dest: sub3)
  qed
  then show ?case
    by (simp only: sanitize_unfold [of schema] sanitize_unfold [of "nested ?S ?s"] fixd)
qed

text \<open>
  Claim C6. Take any fragment of a definition \<open>D\<close>: \<open>D\<close> itself or a fragment nested at any
  depth through \<^verbatim>\<open>properties\<close>, \<^verbatim>\<open>items\<close>, \<^verbatim>\<open>additionalProperties\<close> and \<^verbatim>\<open>allOf\<close>. After
  sanitization the same path leads to a fragment without \<^verbatim>\<open>nullable\<close>, \<^verbatim>\<open>anyOf\<close>, \<^verbatim>\<open>oneOf\<close>
  and \<^verbatim>\<open>not\<close>; without \<^verbatim>\<open>type\<close> and \<^verbatim>\<open>format\<close> when the fragment carries a \<^verbatim>\<open>$ref\<close>; and
  with every vendor-extension field holding the value it held before.
\<close>

theorem sanitize_strips_every_fragment:
  assumes "fragmentAt p D = Some frag"
  shows "\<exists>frag'. fragmentAt p (sanitizeForOpenAPIV2 D) = Some frag'
           \<and> map_of frag' ''nullable'' = None \<and> map_of frag' ''anyOf'' = None
           \<and> map_of frag' ''oneOf'' = None \<and> map_of frag' ''not'' = None
           \<and> (has_key frag ''$ref'' \<longrightarrow>
                  map_of frag' ''type'' = None \<and> map_of frag' ''format'' = None)
           \<and> (\<forall>k. vendorExtension k \<longrightarrow> map_of frag' k = map_of frag k)"
proof -
  let ?f = "sanitizeForOpenAPIV2 frag"
  have at: "fragmentAt p (sanitizeForOpenAPIV2 D) = Some ?f"
    using assms by (simp add: fragmentAt_sanitize)
  have gone: "map_of ?f ''nullable'' = None" "map_of ?f ''anyOf'' = None"
    "map_of ?f ''oneOf'' = None" "map_of ?f ''not'' = None"
    by (simp_all add: map_of_sanitize)
  have ref: "map_of ?f ''type'' = None \<and> map_of ?f ''format'' = None" if "has_key frag ''$ref''"
    using that by (simp add: map_of_sanitize)
  have ext: "map_of ?f k = map_of frag k" if "vendorExtension k" for k
  proof -
    have "k \<notin> {''type'', ''format'', ''nullable'', ''anyOf'', ''oneOf'', ''not'',
                 ''properties'', ''items'', ''additionalProperties'', ''allOf''}"
      using that by (auto simp: vendorExtension_def)
    then show ?thesis by (simp add: map_of_sanitize)
  qed
  show ?thesis
    using at gone ref ext by blast
qed

theorem sanitize_strips_every_fragment_witness:
  "\<exists>frag'. fragmentAt [InProperty ''spec'', InItems]
        (sanitizeForOpenAPIV2
          [(''type'', JString ''object''),
           (''properties'', JObject [(''spec'', JObject [(''type'', JString ''array''),
              (''items'', JObject [(''$ref'', JString ''#/definitions/io.k8s.Foo''),
                 (''type'', JString ''object''), (''nullable'', JBool True),
                 (''oneOf'', JArray [JObject [(''type'', JString ''string'')]]),
                 (''x-kubernetes-map-type'', JString ''atomic'')])])])]) = Some frag'
      \<and> map_of frag' ''nullable'' = None \<and> map_of frag' ''oneOf'' = None
      \<and> map_of frag' ''type'' = None
      \<and> map_of frag' ''x-kubernetes-map-type'' = Some (JString ''atomic'')"
proof -
  let ?frag = "[(''$ref'', JString ''#/definitions/io.k8s.Foo''),
                 (''type'', JString ''object''), (''nullable'', JBool True),
                 (''oneOf'', JArray [JObject [(''type'', JString ''string'')]]),
                 (''x-kubernetes-map-type'', JString ''atomic'')]"
  let ?D = "[(''type'', JString ''object''),
           (''properties'', JObject [(''spec'', JObject [(''type'', JString ''array''),
              (''items'', JObject ?frag)])])]"
  have h: "fragmentAt [InProperty ''spec'', InItems] ?D = Some ?frag"
    by simp
  have r: "has_key ?frag ''$ref''" and v: "vendorExtension ''x-kubernetes-map-type''"
    by (simp_all add: has_key_def vendorExtension_def)
  from sanitize_strips_every_fragment [OF h] r v show ?thesis
    by fastforce
qed

text \<open>
  Claim C7. Let the entry at \<open>key\<close> be an object with a string \<^verbatim>\<open>$ref\<close> whose target key is in
  the map with an object body. When the loop is over, the entry is the target's body
  overridden by every field of the original entry but \<^verbatim>\<open>$ref\<close>: the extras win. The target's
  body is the one the map holds when the loop reaches \<open>key\<close>; it is the body the
  target had at the start when the loop has not visited the target before, or when the
  target is not itself an alias.
\<close>

theorem alias_replaced_by_target_with_extras:
  assumes "distinct order" and "order = before @ key # after"
    and "map_of definitions key = Some (JObject defMap)"
    and "map_of defMap ''$ref'' = Some (JString ref)"
    and "map_of definitions (TrimPrefix ref refPrefix) = Some (JObject target)"
  shows "\<exists>targetMap resolved.
           map_of (resolveRefDefinitions before definitions) (TrimPrefix ref refPrefix)
             = Some (JObject targetMap)
         \<and> map_of (resolveRefDefinitions order definitions) key = Some (JObject resolved)
         \<and> (\<forall>k. map_of resolved k =
                  (if k \<noteq> ''$ref'' \<and> has_key defMap k then map_of defMap k
                   else map_of targetMap k))
         \<and> (TrimPrefix ref refPrefix \<notin> set before
              \<or> (\<forall>r. map_of target ''$ref'' \<noteq> Some (JString r)) \<longrightarrow> targetMap = target)"
proof -
  let ?t = "TrimPrefix ref refPrefix"
  let ?st = "resolveRefDefinitions before definitions"
  from assms(1,2) have nb: "key \<notin> set before" and na: "key \<notin> set after" by auto
  from resolveRefDefinitions_object [OF assms(5), of before] obtain targetMap
    where tm: "map_of ?st ?t = Some (JObject targetMap)" ..
  have here: "map_of ?st key = Some (JObject defMap)"
    using nb assms(3) by (simp add: resolveRefDefinitions_unvisited)
  let ?resolved = "mergeExtras targetMap defMap"
  have "resolveDefinition ?st key = AList.update key (JObject ?resolved) ?st"
    using here assms(4) tm by (simp add: resolveDefinition_def)
  then have "map_of (resolveDefinition ?st key) key = Some (JObject ?resolved)"
    by (simp add: update_conv')
  then have fin: "map_of (resolveRefDefinitions order definitions) key = Some (JObject ?resolved)"
    using na by (simp add: assms(2) resolveRefDefinitions_append resolveRefDefinitions_Cons
        resolveRefDefinitions_unvisited)
  have same: "targetMap = target"
    if "?t \<notin> set before \<or> (\<forall>r. map_of target ''$ref'' \<noteq> Some (JString r))"
    using that tm assms(5) resolveRefDefinitions_unvisited [of ?t before definitions]
      resolveRefDefinitions_not_alias [OF assms(5), of before]
    by auto
  show ?thesis
    using tm fin same map_of_mergeExtras [of targetMap defMap] by blast
qed

theorem alias_replaced_by_target_with_extras_witness:
  "\<exists>resolved.
     map_of (resolveRefDefinitions [''Foo'', ''X'']
               [(''X'', JObject [(''type'', JString ''object''),
                   (''properties'', JObject [(''a'', JObject [(''type'', JString ''string'')])])]),
                (''Foo'', JObject [(''$ref'', JString ''#/definitions/X''),
                   (''x-marker'', JBool True)])]) ''Foo'' = Some (JObject resolved)
     \<and> map_of resolved ''type'' = Some (JString ''object'')
     \<and> map_of resolved ''properties''
           = Some (JObject [(''a'', JObject [(''type'', JString ''string'')])])
     \<and> map_of resolved ''x-marker'' = Some (JBool True)
     \<and> map_of resolved ''$ref'' = None"
proof -
  let ?X = "[(''type'', JString ''object''),
             (''properties'', JObject [(''a'', JObject [(''type'', JString ''string'')])])]"
  let ?Foo = "[(''$ref'', JString ''#/definitions/X''), (''x-marker'', JBool True)]"
  let ?defs = "[(''X'', JObject ?X), (''Foo'', JObject ?Foo)]"
  have t: "TrimPrefix ''#/definitions/X'' refPrefix = ''X''"
    by (simp add: TrimPrefix_def refPrefix_def)
  have 1: "distinct [''Foo'', ''X'']" and 2: "[''Foo'', ''X''] = [] @ ''Foo'' # [''X'']"
    and 3: "map_of ?defs ''Foo'' = Some (JObject ?Foo)"
    and 4: "map_of ?Foo ''$ref'' = Some (JString ''#/definitions/X'')"
    and 5: "map_of ?defs (TrimPrefix ''#/definitions/X'' refPrefix) = Some (JObject ?X)"
    by (simp_all add: t)
  from alias_replaced_by_target_with_extras [OF 1 2 3 4 5] show ?thesis
    by (auto simp: t has_key_def)
qed

text \<open>
  Claim C8. When the resolver succeeds, the references of the result outside its
  \<^verbatim>\<open>allOf\<close> entries, that of the schema itself and those in \<^verbatim>\<open>properties\<close> values, in \<^verbatim>\<open>items\<close>
  and in \<^verbatim>\<open>additionalProperties\<close> at any depth, are those of the argument, one for one. More
  than the references: the result and the argument are the same schema once every
  \<^verbatim>\<open>allOf\<close> outside an \<^verbatim>\<open>allOf\<close> entry is emptied.
\<close>

theorem references_outside_allOf_untouched:
  assumes "resolveAllOfRefs fuel lib Schemata pkgByPath contextPkg schema = Some (Inr schema')"
  shows "outerRefs schema' = outerRefs schema \<and> withoutAllOf schema' = withoutAllOf schema"
  using resolveAllOfRefs_outside [OF assms] by simp

theorem references_outside_allOf_untouched_witness:
  "resolveAllOfRefs 3 library_model
     [(TypeIdent (Some (Pkg ''example.com/a'')) ''B'',
       object [(''b'', refTo ''#/definitions/Spec'')] [])]
     [(''example.com/a'', Pkg ''example.com/a'')] (Some (Pkg ''example.com/a''))
     (object [(''spec'', refTo ''#/definitions/Spec'')] [refTo ''#/definitions/B''])
   = Some (Inr (object [(''spec'', refTo ''#/definitions/Spec'')]
                  [object [(''b'', refTo ''#/definitions/Spec'')] []]))
   \<and> outerRefs (object [(''spec'', refTo ''#/definitions/Spec'')]
                  [object [(''b'', refTo ''#/definitions/Spec'')] []])
     = [None, Some ''#/definitions/Spec'']"
proof -
  have h: "resolveAllOfRefs 3 library_model
     [(TypeIdent (Some (Pkg ''example.com/a'')) ''B'',
       object [(''b'', refTo ''#/definitions/Spec'')] [])]
     [(''example.com/a'', Pkg ''example.com/a'')] (Some (Pkg ''example.com/a''))
     (object [(''spec'', refTo ''#/definitions/Spec'')] [refTo ''#/definitions/B''])
   = Some (Inr (object [(''spec'', refTo ''#/definitions/Spec'')]
                  [object [(''b'', refTo ''#/definitions/Spec'')] []]))"
    by code_simp
  from references_outside_allOf_untouched [OF h] h show ?thesis
    by (simp add: object_def refTo_def)
qed

text \<open>
  Claim C9. Let the assembled map hold at \<open>key\<close> an object with a string \<^verbatim>\<open>$ref\<close> whose target
  key is not in the map. Then the Alias Resolver leaves the entry as it is, reference and
  extras, whatever the order of its loop; and the resolver has no error to return, so
  the definitions are built.
\<close>

theorem dangling_alias_tolerated:
  assumes "assemble (definitionFor fuel lib root crdTypeSet gv Schemata (buildPkgByPath Schemata))
             Schemata [] = Some (Inr definitions)"
    and "map_of definitions key = Some (JObject defMap)"
    and "map_of defMap ''$ref'' = Some (JString ref)"
    and "map_of definitions (TrimPrefix ref refPrefix) = None"
  shows "buildDefinitions fuel lib root crdTypeSet gv Schemata order
           = Some (Inr (resolveRefDefinitions order definitions))
         \<and> map_of (resolveRefDefinitions order definitions) key = Some (JObject defMap)"
  using assms(1) dangling_alias_kept [OF assms(2-4)] by (simp add: buildDefinitions_def)

theorem dangling_alias_tolerated_witness:
  "\<exists>final.
     buildDefinitions 2 library_model (Pkg ''example.com/a'') {''Foo''}
       \<lparr>Group = ''example.com'', Version = ''v1''\<rparr>
       [(TypeIdent (Some (Pkg ''example.com/a'')) ''Foo'',
         JSONSchemaProps (Some ''#/definitions/Gone'') [] [] False [] None None [] [] []
           None (Some ''atomic''))]
       [''com.example.a.Foo''] = Some (Inr final)
     \<and> map_of final ''com.example.a.Foo''
         = Some (JObject [(''$ref'', JString ''#/definitions/com.example.a.Gone''),
                          (''x-kubernetes-map-type'', JString ''atomic''),
                          (''x-kubernetes-group-version-kind'',
                           JArray [JObject [(''group'', JString ''example.com''),
                                            (''version'', JString ''v1''),
                                            (''kind'', JString ''Foo'')]])])"
proof -
  let ?S = "[(TypeIdent (Some (Pkg ''example.com/a'')) ''Foo'',
              JSONSchemaProps (Some ''#/definitions/Gone'') [] [] False [] None None [] [] []
                None (Some ''atomic''))]"
  let ?defMap = "[(''$ref'', JString ''#/definitions/com.example.a.Gone''),
                  (''x-kubernetes-map-type'', JString ''atomic''),
                  (''x-kubernetes-group-version-kind'',
                   JArray [JObject [(''group'', JString ''example.com''),
                                    (''version'', JString ''v1''),
                                    (''kind'', JString ''Foo'')]])]"
  let ?defs = "[(''com.example.a.Foo'', JObject ?defMap)]"
  have 1: "assemble (definitionFor 2 library_model (Pkg ''example.com/a'') {''Foo''}
               \<lparr>Group = ''example.com'', Version = ''v1''\<rparr> ?S (buildPkgByPath ?S)) ?S []
             = Some (Inr ?defs)"
    by code_simp
  have 2: "map_of ?defs ''com.example.a.Foo'' = Some (JObject ?defMap)"
    and 3: "map_of ?defMap ''$ref'' = Some (JString ''#/definitions/com.example.a.Gone'')"
    and 4: "map_of ?defs (TrimPrefix ''#/definitions/com.example.a.Gone'' refPrefix) = None"
    by (simp_all add: TrimPrefix_def refPrefix_def)
  from dangling_alias_tolerated [OF 1 2 3 4, of "[''com.example.a.Foo'']"] show ?thesis
    by blast
qed

text \<open>
  Claim C10. When the resolver succeeds, \<^verbatim>\<open>AllOf\<close> has as many entries as before, and each
  is as follows. An entry with a non-empty reference has become the resolved schema of
  the type it refers to, looked up from the reference alone and resolved in the package of
  that type: nothing of the entry but its reference has a part in it, so its other fields
  are gone. Any other entry has become what the resolver makes of that entry in the same
  context.
\<close>

theorem allOf_entry_replaced_or_recursed:
  assumes "resolveAllOfRefs (Suc fuel) lib Schemata pkgByPath contextPkg schema = Some (Inr schema')"
  shows "list_all2
           (\<lambda>entry entry'.
              if hasRef entry then
                (\<exists>pkg refSchema.
                   lookupRef lib Schemata pkgByPath contextPkg (the (Ref entry)) = Inr (pkg, refSchema)
                   \<and> resolveAllOfRefs fuel lib Schemata pkgByPath (Some pkg) refSchema
                       = Some (Inr entry'))
              else resolveAllOfRefs fuel lib Schemata pkgByPath contextPkg entry = Some (Inr entry'))
           (AllOf schema) (AllOf schema')"
proof -
  obtain ref ty fmt nullable props items addProps allOf oneOf anyOf nt xmap where
    s: "schema = JSONSchemaProps ref ty fmt nullable props items addProps allOf oneOf anyOf nt xmap"
    by (cases schema)
  from assms [unfolded s] obtain allOf' props' items' addProps' where
    "schema' = JSONSchemaProps ref ty fmt nullable props' items' addProps' allOf' oneOf anyOf nt xmap"
    "list_all2 (entryResolved fuel lib Schemata pkgByPath contextPkg) allOf allOf'"
    by (rule resolveAllOfRefs_Inr)
  then show ?thesis
    unfolding s entryResolved_def [abs_def] by simp
qed

theorem allOf_entry_replaced_or_recursed_witness:
  "lookupRef library_model
     [(TypeIdent (Some (Pkg ''example.com/a'')) ''B'', object [(''b'', typed ''string'')] [])]
     [(''example.com/a'', Pkg ''example.com/a'')] (Some (Pkg ''example.com/a''))
     ''#/definitions/B''
   = Inr (Pkg ''example.com/a'', object [(''b'', typed ''string'')] [])
   \<and> AllOf (object []
        [JSONSchemaProps (Some ''#/definitions/B'') ''object'' ''int32'' True
           [(''sibling'', typed ''integer'')] None None [] [] [] None (Some ''atomic''),
         object [(''inline'', typed ''boolean'')] [refTo ''#/definitions/B'']])
     = [JSONSchemaProps (Some ''#/definitions/B'') ''object'' ''int32'' True
           [(''sibling'', typed ''integer'')] None None [] [] [] None (Some ''atomic''),
        object [(''inline'', typed ''boolean'')] [refTo ''#/definitions/B'']]
   \<and> resolveAllOfRefs 4 library_model
       [(TypeIdent (Some (Pkg ''example.com/a'')) ''B'', object [(''b'', typed ''string'')] [])]
       [(''example.com/a'', Pkg ''example.com/a'')] (Some (Pkg ''example.com/a''))
       (object []
         [JSONSchemaProps (Some ''#/definitions/B'') ''object'' ''int32'' True
            [(''sibling'', typed ''integer'')] None None [] [] [] None (Some ''atomic''),
          object [(''inline'', typed ''boolean'')] [refTo ''#/definitions/B'']])
     = Some (Inr (object []
         [object [(''b'', typed ''string'')] [],
          object [(''inline'', typed ''boolean'')] [object [(''b'', typed ''string'')] []]]))
   \<and> resolveAllOfRefs 3 library_model
       [(TypeIdent (Some (Pkg ''example.com/a'')) ''B'', object [(''b'', typed ''string'')] [])]
       [(''example.com/a'', Pkg ''example.com/a'')] (Some (Pkg ''example.com/a''))
       (object [(''b'', typed ''string'')] [])
     = Some (Inr (object [(''b'', typed ''string'')] []))
   \<and> resolveAllOfRefs 3 library_model
       [(TypeIdent (Some (Pkg ''example.com/a'')) ''B'', object [(''b'', typed ''string'')] [])]
       [(''example.com/a'', Pkg ''example.com/a'')] (Some (Pkg ''example.com/a''))
       (object [(''inline'', typed ''boolean'')] [refTo ''#/definitions/B''])
     = Some (Inr (object [(''inline'', typed ''boolean'')] [object [(''b'', typed ''string'')] []]))"
proof -
  let ?S = "[(TypeIdent (Some (Pkg ''example.com/a'')) ''B'', object [(''b'', typed ''string'')] [])]"
  let ?P = "[(''example.com/a'', Pkg ''example.com/a'')]"
  let ?e0 = "JSONSchemaProps (Some ''#/definitions/B'') ''object'' ''int32'' True
           [(''sibling'', typed ''integer'')] None None [] [] [] None (Some ''atomic'')"
  let ?e1 = "object [(''inline'', typed ''boolean'')] [refTo ''#/definitions/B'']"
  have h: "resolveAllOfRefs (Suc 3) library_model ?S ?P (Some (Pkg ''example.com/a''))
       (object [] [?e0, ?e1])
     = Some (Inr (object []
         [object [(''b'', typed ''string'')] [],
          object [(''inline'', typed ''boolean'')] [object [(''b'', typed ''string'')] []]]))"
    by code_simp
  have l: "lookupRef library_model ?S ?P (Some (Pkg ''example.com/a'')) ''#/definitions/B''
     = Inr (Pkg ''example.com/a'', object [(''b'', typed ''string'')] [])"
    by code_simp
  have r0: "hasRef ?e0" "Ref ?e0 = Some ''#/definitions/B''" and r1: "\<not> hasRef ?e1"
    by (simp_all add: hasRef_def object_def)
  have n: "Suc 3 = 4" by simp
  from allOf_entry_replaced_or_recursed [OF h] h l show ?thesis
    unfolding n by (simp add: object_def [of "[]"] r0 r1)
qed

end
